(* ===== verification/Sopmq_Prelude.thy ===== *)
theory Sopmq_Prelude
  imports Main "HOL-Library.Word"
begin

text \<open>
  Shared ground of the development: the machine types the C++ sources use, exceptions as
  a sum type, the ordered containers of the standard library, the collections of rewrite
  rules the component theories fill, and generic facts on lists and options that several
  components need.
\<close>

section \<open>Machine types\<close>

text \<open>
  The fixed-width unsigned types of \<open><cstdint>\<close>; \<open>size_t\<close> and pointers are 64 bits
  wide on the platforms the build files name.  A C string or \<open>std::string\<close> of bytes
  is a \<^typ>\<open>string\<close>; raw byte buffers are lists of \<open>u8\<close>.
\<close>

type_synonym u8 = "8 word"
type_synonym u16 = "16 word"
type_synonym u32 = "32 word"
type_synonym u64 = "64 word"

text \<open>The byte in a \<open>char\<close> and back.\<close>

definition byte_char :: "u8 \<Rightarrow> char" where
  "byte_char b = char_of (unat b)"

definition char_byte :: "char \<Rightarrow> u8" where
  "char_byte c = of_char c"

lemma char_byte_char [simp]: "char_byte (byte_char b) = b"
proof -
  have "unat b < 256" using unsigned_less [of b] by simp
  then have "of_nat (of_char (char_of (unat b) :: char)) = b" by (simp add: of_char_of)
  then show ?thesis by (simp only: char_byte_def byte_char_def of_nat_of_char)
qed

lemma byte_char_byte [simp]: "byte_char (char_byte c) = c"
proof -
  have "(of_char c :: nat) < 256" by (rule nat_of_char_less_256)
  moreover have "char_byte c = of_nat (of_char c)" by (simp only: char_byte_def of_nat_of_char)
  ultimately have "unat (char_byte c) = of_char c" by (simp add: unat_of_nat)
  then show ?thesis by (simp add: byte_char_def)
qed

text \<open>A boost uuid is sixteen bytes.\<close>

type_synonym uuid = "u8 list"

text \<open>Points of \<open>steady_clock\<close>, in ticks of a nanosecond.\<close>

type_synonym time_point = int

definition seconds :: "u32 \<Rightarrow> int" where
  "seconds n = uint n * 1000000000"

section \<open>Rule collections\<close>

named_theorems queue_simps \<open>behaviour of the message queue on its fields\<close>
named_theorems ring_simps \<open>behaviour of the ring on its node map\<close>
named_theorems wire_simps \<open>behaviour of the framing code\<close>

section \<open>Exceptions\<close>

text \<open>
  A C++ function that may throw returns \<open>Inl e\<close> for the exception \<open>e\<close> and \<open>Inr v\<close> for
  a normal return; sequencing stops at the first throw.
\<close>

definition andthen :: "'e + 'a \<Rightarrow> ('a \<Rightarrow> 'e + 'b) \<Rightarrow> 'e + 'b" where
  "andthen m f = (case m of Inl e \<Rightarrow> Inl e | Inr x \<Rightarrow> f x)"

lemma andthen_simps [simp]:
  "andthen (Inl e) f = Inl e" "andthen (Inr x) f = f x"
  by (simp_all add: andthen_def)

lemma andthen_Inr_iff: "andthen m f = Inr y \<longleftrightarrow> (\<exists>x. m = Inr x \<and> f x = Inr y)"
  by (cases m) simp_all

section \<open>Ordered containers\<close>

text \<open>
  The contract of a comparator of \<open>std::map\<close> and \<open>std::multimap\<close> on the keys a container
  holds: a strict weak order.
\<close>

definition upper_bound :: "('k \<Rightarrow> 'k \<Rightarrow> bool) \<Rightarrow> 'k \<Rightarrow> ('k \<times> 'v) list \<Rightarrow> nat" where
  "upper_bound lt k xs = length (takeWhile (\<lambda>e. \<not> lt k (fst e)) xs)"

text \<open>
  Insertion into a \<open>std::multimap\<close>, seen as the list of its elements in iteration order:
  a new element goes behind the elements that are not greater.  With a hint at the end,
  the last element is tried first.
\<close>

definition multimap_insert :: "('k \<Rightarrow> 'k \<Rightarrow> bool) \<Rightarrow> 'k \<times> 'v \<Rightarrow> ('k \<times> 'v) list \<Rightarrow> ('k \<times> 'v) list" where
  "multimap_insert lt e xs =
     (let n = upper_bound lt (fst e) xs in take n xs @ e # drop n xs)"

definition multimap_insert_end :: "('k \<Rightarrow> 'k \<Rightarrow> bool) \<Rightarrow> 'k \<times> 'v \<Rightarrow> ('k \<times> 'v) list \<Rightarrow> ('k \<times> 'v) list" where
  "multimap_insert_end lt e xs =
     (if xs \<noteq> [] \<and> \<not> lt (fst e) (fst (last xs)) then xs @ [e] else multimap_insert lt e xs)"

text \<open>\<open>std::map\<close>: \<open>insert\<close> keeps an element whose key is equivalent.\<close>

fun map_insert :: "('k \<Rightarrow> 'k \<Rightarrow> bool) \<Rightarrow> 'k \<times> 'v \<Rightarrow> ('k \<times> 'v) list \<Rightarrow> ('k \<times> 'v) list" where
  "map_insert lt e [] = [e]"
| "map_insert lt e (x # xs) =
     (if lt (fst e) (fst x) then e # x # xs
      else if lt (fst x) (fst e) then x # map_insert lt e xs
      else x # xs)"

abbreviation keys_sorted :: "('k \<Rightarrow> 'k \<Rightarrow> bool) \<Rightarrow> ('k \<times> 'v) list \<Rightarrow> bool" where
  "keys_sorted lt xs \<equiv> sorted_wrt (\<lambda>x y. \<not> lt (fst y) (fst x)) xs"

lemma multimap_insert_split:
  "\<exists>ys zs. xs = ys @ zs \<and> multimap_insert lt e xs = ys @ e # zs \<and>
     (\<forall>y\<in>set ys. \<not> lt (fst e) (fst y)) \<and> (zs \<noteq> [] \<longrightarrow> lt (fst e) (fst (hd zs)))"
proof -
  let ?P = "\<lambda>x. \<not> lt (fst e) (fst x)"
  have "xs = takeWhile ?P xs @ dropWhile ?P xs" by simp
  moreover have "multimap_insert lt e xs = takeWhile ?P xs @ e # dropWhile ?P xs"
    by (simp add: multimap_insert_def upper_bound_def dropWhile_eq_drop takeWhile_eq_take [symmetric])
  moreover have "\<forall>y\<in>set (takeWhile ?P xs). ?P y" by (auto dest: set_takeWhileD)
  moreover have "dropWhile ?P xs \<noteq> [] \<longrightarrow> lt (fst e) (fst (hd (dropWhile ?P xs)))"
    using hd_dropWhile [of ?P xs] by blast
  ultimately show ?thesis by blast
qed

lemma set_multimap_insert [simp]: "set (multimap_insert lt e xs) = insert e (set xs)"
  using multimap_insert_split [of xs lt e] by auto

lemma set_multimap_insert_end [simp]: "set (multimap_insert_end lt e xs) = insert e (set xs)"
  by (simp add: multimap_insert_end_def)

lemma multimap_insert_end_split:
  "\<exists>ys zs. xs = ys @ zs \<and> multimap_insert_end lt e xs = ys @ e # zs"
proof (cases "xs \<noteq> [] \<and> \<not> lt (fst e) (fst (last xs))")
  case True
  then show ?thesis by (intro exI [of _ xs] exI [of _ "[]"]) (simp add: multimap_insert_end_def)
next
  case False
  then show ?thesis using multimap_insert_split [of xs lt e] by (auto simp: multimap_insert_end_def)
qed

lemma length_multimap_insert_end [simp]: "length (multimap_insert_end lt e xs) = Suc (length xs)"
  using multimap_insert_end_split [of xs lt e] by auto

lemma sum_list_multimap_insert_end:
  "sum_list (map f (multimap_insert_end lt e xs)) = f e + (sum_list (map f xs) :: 'a::comm_monoid_add)"
  using multimap_insert_end_split [of xs lt e] by (auto simp: ac_simps)

locale strict_weak_order =
  fixes S :: "'k set" and lt :: "'k \<Rightarrow> 'k \<Rightarrow> bool"
  assumes irrefl: "x \<in> S \<Longrightarrow> \<not> lt x x"
    and trans: "x \<in> S \<Longrightarrow> y \<in> S \<Longrightarrow> z \<in> S \<Longrightarrow> lt x y \<Longrightarrow> lt y z \<Longrightarrow> lt x z"
    and weak: "x \<in> S \<Longrightarrow> y \<in> S \<Longrightarrow> z \<in> S \<Longrightarrow> lt x z \<Longrightarrow> lt x y \<or> lt y z"
begin

lemma asym: "x \<in> S \<Longrightarrow> y \<in> S \<Longrightarrow> lt x y \<Longrightarrow> \<not> lt y x"
  using irrefl trans by blast

lemma insert_sorted:
  assumes "keys_sorted lt xs" "fst e \<in> S" "fst ` set xs \<subseteq> S"
  shows "keys_sorted lt (multimap_insert lt e xs)"
proof -
  obtain ys zs where s: "xs = ys @ zs" "multimap_insert lt e xs = ys @ e # zs"
    "\<forall>y\<in>set ys. \<not> lt (fst e) (fst y)" "zs \<noteq> [] \<longrightarrow> lt (fst e) (fst (hd zs))"
    using multimap_insert_split [of xs lt e] by blast
  have "\<not> lt (fst z) (fst e)" if z: "z \<in> set zs" for z
  proof
    assume "lt (fst z) (fst e)"
    obtain w ws where w: "zs = w # ws" using z by (cases zs) auto
    have k: "fst z \<in> S" "fst w \<in> S" using assms(3) s(1) z w by auto
    have "lt (fst z) (fst w)"
      using trans [OF k(1) assms(2) k(2) \<open>lt (fst z) (fst e)\<close>] s(4) w by simp
    moreover have "\<not> lt (fst z) (fst w)"
      using assms(1) z w irrefl [OF k(1)] by (auto simp: s(1) sorted_wrt_append)
    ultimately show False by blast
  qed
  then show ?thesis using assms(1) s(2,3) by (auto simp: s(1) sorted_wrt_append)
qed

lemma insert_end_sorted:
  assumes "keys_sorted lt xs" "fst e \<in> S" "fst ` set xs \<subseteq> S"
  shows "keys_sorted lt (multimap_insert_end lt e xs)"
proof (cases "xs \<noteq> [] \<and> \<not> lt (fst e) (fst (last xs))")
  case True
  have "\<not> lt (fst e) (fst x)" if x: "x \<in> set xs" for x
  proof
    assume lt: "lt (fst e) (fst x)"
    obtain ys where ys: "xs = ys @ [last xs]" using True by (metis append_butlast_last_id)
    have "\<not> lt (fst (last xs)) (fst x)"
    proof (cases "x \<in> set ys")
      case True
      then show ?thesis using assms(1) by (subst (asm) ys) (auto simp: sorted_wrt_append)
    next
      case False
      then have "x = last xs" using x by (subst (asm) ys) auto
      then show ?thesis using x assms(3) irrefl [of "fst x"] by auto
    qed
    moreover have "fst x \<in> S" "fst (last xs) \<in> S" using x True assms(3) by auto
    ultimately show False using weak [of "fst e" "fst (last xs)" "fst x"] assms(2) lt True by blast
  qed
  then show ?thesis using True assms(1) by (auto simp: multimap_insert_end_def sorted_wrt_append)
next
  case False
  then show ?thesis using insert_sorted [OF assms] by (auto simp: multimap_insert_end_def)
qed

end

section \<open>Unordered maps\<close>

text \<open>
  A \<open>std::unordered_map\<close> is the list of its elements in some iteration order.  \<open>insert\<close>
  leaves an element with the same key alone; assignment through \<open>operator[]\<close> replaces it.
\<close>

definition umap_insert :: "'k \<Rightarrow> 'v \<Rightarrow> ('k \<times> 'v) list \<Rightarrow> ('k \<times> 'v) list" where
  "umap_insert k v xs = (if map_of xs k = None then xs @ [(k, v)] else xs)"

definition umap_erase :: "'k \<Rightarrow> ('k \<times> 'v) list \<Rightarrow> ('k \<times> 'v) list" where
  "umap_erase k xs = filter (\<lambda>e. fst e \<noteq> k) xs"

text \<open>Writing through a reference to the element with a given key.\<close>

definition umap_update :: "'k \<Rightarrow> ('v \<Rightarrow> 'v) \<Rightarrow> ('k \<times> 'v) list \<Rightarrow> ('k \<times> 'v) list" where
  "umap_update k f xs = map (\<lambda>(k', v). (k', if k' = k then f v else v)) xs"

definition umap_assign :: "'k \<Rightarrow> 'v \<Rightarrow> ('k \<times> 'v) list \<Rightarrow> ('k \<times> 'v) list" where
  "umap_assign k v xs = umap_update k (\<lambda>_. v) (umap_insert k v xs)"

lemma map_of_umap_erase: "map_of (umap_erase k xs) = (map_of xs)(k := None)"
  by (induction xs) (auto simp: umap_erase_def fun_eq_iff)

lemma umap_insert_new: "map_of xs k = None \<Longrightarrow> umap_insert k v xs = xs @ [(k, v)]"
  by (simp add: umap_insert_def)

lemma map_of_umap_update: "map_of (umap_update k f xs) k' = (if k' = k then map_option f (map_of xs k) else map_of xs k')"
  by (induction xs) (auto simp: umap_update_def)

lemma map_fst_umap_update [simp]: "map fst (umap_update k f xs) = map fst xs"
  by (induction xs) (auto simp: umap_update_def)

lemma map_of_umap_insert:
  "map_of (umap_insert k v xs) k' = (if k' = k \<and> map_of xs k = None then Some v else map_of xs k')"
  by (auto simp: umap_insert_def map_add_def split: option.splits)

lemma map_of_umap_assign: "map_of (umap_assign k v xs) = (map_of xs)(k \<mapsto> v)"
  by (auto simp: umap_assign_def map_of_umap_update map_of_umap_insert fun_eq_iff)

end
