(* ===== verification/Uint128.thy ===== *)
theory Uint128
  imports Sopmq_Prelude "HOL-Library.While_Combinator"
begin

text \<open>
  The class \<open>uint128\<close> of \<open>thirdparty/src/uint128.h\<close>: two 64-bit halves, with the
  arithmetic, bitwise, shift, division, parsing and printing operators written over
  the halves exactly as in the source.  The abstraction \<open>u128\<close> reads the two halves as
  one 128-bit word; every operator is shown to compute the operation of
  \<^typ>\<open>128 word\<close>.  Ring positions, queue ids and hashes are values of this class.
\<close>

unbundle bit_operations_syntax

section \<open>The class and its operators\<close>

datatype uint128 = U128 (lo: u64) (hi: u64)

text \<open>Constructors from \<open>int\<close>, \<open>unsigned int\<close> and \<open>uint64_t\<close>.\<close>

definition uint128_of_int :: "32 word \<Rightarrow> uint128" where
  "uint128_of_int value = U128 (scast value) (if sint value < 0 then - 1 else 0)"

definition uint128_of_uint :: "u32 \<Rightarrow> uint128" where
  "uint128_of_uint value = U128 (ucast value) 0"

definition uint128_of_base :: "u64 \<Rightarrow> uint128" where
  "uint128_of_base value = U128 value 0"

definition to_integer :: "uint128 \<Rightarrow> 32 word" where
  "to_integer x = ucast (lo x)"

definition to_base_type :: "uint128 \<Rightarrow> u64" where
  "to_base_type x = lo x"

text \<open>Comparison: \<open>operator==\<close>, \<open>operator<\<close> and \<open>operator!\<close>.\<close>

definition uint128_eq :: "uint128 \<Rightarrow> uint128 \<Rightarrow> bool" where
  "uint128_eq a b \<longleftrightarrow> hi a = hi b \<and> lo a = lo b"

definition uint128_lt :: "uint128 \<Rightarrow> uint128 \<Rightarrow> bool" where
  "uint128_lt a b \<longleftrightarrow> (if hi a = hi b then lo a < lo b else hi a < hi b)"

definition uint128_lnot :: "uint128 \<Rightarrow> bool" where
  "uint128_lnot a \<longleftrightarrow> \<not> (hi a \<noteq> 0 \<or> lo a \<noteq> 0)"

text \<open>Arithmetic: complement, increment, decrement, addition, negation, subtraction.\<close>

definition uint128_not :: "uint128 \<Rightarrow> uint128" where
  "uint128_not a = U128 (NOT (lo a)) (NOT (hi a))"

definition uint128_inc :: "uint128 \<Rightarrow> uint128" where
  "uint128_inc a = (let l = lo a + 1 in U128 l (if l = 0 then hi a + 1 else hi a))"

definition uint128_dec :: "uint128 \<Rightarrow> uint128" where
  "uint128_dec a = U128 (lo a - 1) (if lo a = 0 then hi a - 1 else hi a)"

definition uint128_add :: "uint128 \<Rightarrow> uint128 \<Rightarrow> uint128" where
  "uint128_add a b =
     (let l = lo a + lo b; h = hi a + hi b
      in U128 l (if l < lo a then h + 1 else h))"

definition uint128_neg :: "uint128 \<Rightarrow> uint128" where
  "uint128_neg a = uint128_add (uint128_not a) (uint128_of_int 1)"

definition uint128_sub :: "uint128 \<Rightarrow> uint128 \<Rightarrow> uint128" where
  "uint128_sub a b = uint128_add a (uint128_neg b)"

text \<open>Bitwise operators.\<close>

definition uint128_or :: "uint128 \<Rightarrow> uint128 \<Rightarrow> uint128" where
  "uint128_or a b = U128 (lo a OR lo b) (hi a OR hi b)"

definition uint128_and :: "uint128 \<Rightarrow> uint128 \<Rightarrow> uint128" where
  "uint128_and a b = U128 (lo a AND lo b) (hi a AND hi b)"

definition uint128_xor :: "uint128 \<Rightarrow> uint128 \<Rightarrow> uint128" where
  "uint128_xor a b = U128 (lo a XOR lo b) (hi a XOR hi b)"

text \<open>
  Shifts.  The count is the \<open>to_integer()\<close> of the right operand read as an
  \<open>unsigned int\<close>, that is its low 32 bits.
\<close>

definition uint128_shl :: "uint128 \<Rightarrow> uint128 \<Rightarrow> uint128" where
  "uint128_shl a rhs =
     (let n = to_integer rhs in
      if n \<ge> 128 then U128 0 0
      else
        (let (n, l, h) = (if n \<ge> 64 then (n - 64, 0, lo a) else (n, lo a, hi a)) in
         if n \<noteq> 0 then
           (let h1 = push_bit (unat n) h;
                mask = NOT (drop_bit (unat n) (- 1 :: u64));
                h2 = h1 OR drop_bit (unat (64 - n)) (l AND mask);
                l1 = push_bit (unat n) l
            in U128 l1 h2)
         else U128 l h))"

definition uint128_shr :: "uint128 \<Rightarrow> uint128 \<Rightarrow> uint128" where
  "uint128_shr a rhs =
     (let n = to_integer rhs in
      if n \<ge> 128 then U128 0 0
      else
        (let (n, l, h) = (if n \<ge> 64 then (n - 64, hi a, 0) else (n, lo a, hi a)) in
         if n \<noteq> 0 then
           (let l1 = drop_bit (unat n) l;
                mask = NOT (push_bit (unat n) (- 1 :: u64));
                l2 = l1 OR push_bit (unat (64 - n)) (h AND mask);
                h1 = drop_bit (unat n) h
            in U128 l2 h1)
         else U128 l h))"

text \<open>Multiplication: 128 rounds of shift-and-add over the bits of the right operand.\<close>

fun uint128_mult_loop :: "nat \<Rightarrow> uint128 \<Rightarrow> nat \<Rightarrow> uint128 \<Rightarrow> uint128 \<Rightarrow> uint128" where
  "uint128_mult_loop 0 a i t acc = acc"
| "uint128_mult_loop (Suc k) a i t acc =
     uint128_mult_loop k a (Suc i) (uint128_shr t (uint128_of_int 1))
       (if uint128_eq (uint128_and t (uint128_of_int 1)) (uint128_of_int 0) then acc
        else uint128_add acc (uint128_shl a (uint128_of_uint (of_nat i))))"

definition uint128_mult :: "uint128 \<Rightarrow> uint128 \<Rightarrow> uint128" where
  "uint128_mult a b =
     (if uint128_eq b (uint128_of_int 0) then U128 0 0
      else if \<not> uint128_eq b (uint128_of_int 1) then uint128_mult_loop 128 a 0 b (U128 0 0)
      else a)"

text \<open>
  Division, the template \<open>divide\<close>: align the divisor below the numerator, then subtract
  and shift back.  Both loops are \<open>while\<close> loops; a loop that does not end is \<open>None\<close>.
  A zero denominator throws \<open>std::domain_error\<close>.
\<close>

datatype divide_error = DivideByZero

definition divide_align :: "uint128 \<Rightarrow> uint128 \<times> uint128 \<Rightarrow> (uint128 \<times> uint128) option" where
  "divide_align n =
     while_option
       (\<lambda>(d, x). \<not> uint128_lt n d \<and>
          uint128_eq (uint128_and (uint128_shr d (uint128_of_int 127)) (uint128_of_int 1))
            (uint128_of_int 0))
       (\<lambda>(d, x). (uint128_shl d (uint128_of_int 1), uint128_shl x (uint128_of_int 1)))"

definition divide_subtract ::
  "uint128 \<times> uint128 \<times> uint128 \<times> uint128 \<Rightarrow> (uint128 \<times> uint128 \<times> uint128 \<times> uint128) option" where
  "divide_subtract =
     while_option
       (\<lambda>(n, d, x, answer). \<not> uint128_eq x (uint128_of_int 0))
       (\<lambda>(n, d, x, answer).
          (let (n, answer) =
             (if \<not> uint128_lt n d then (uint128_sub n d, uint128_or answer x) else (n, answer))
           in (n, uint128_shr d (uint128_of_int 1), uint128_shr x (uint128_of_int 1), answer)))"

definition divide :: "uint128 \<Rightarrow> uint128 \<Rightarrow> (divide_error + uint128 \<times> uint128) option" where
  "divide numerator denominator =
     (if uint128_eq denominator (uint128_of_int 0) then Some (Inl DivideByZero)
      else
        (case divide_align numerator (denominator, uint128_of_int 1) of
           None \<Rightarrow> None
         | Some (d, x) \<Rightarrow>
             (case divide_subtract (numerator, d, x, uint128_of_int 0) of
                None \<Rightarrow> None
              | Some (n, _, _, answer) \<Rightarrow> Some (Inr (answer, n)))))"

definition uint128_div :: "uint128 \<Rightarrow> uint128 \<Rightarrow> (divide_error + uint128) option" where
  "uint128_div a b = map_option (map_sum id fst) (divide a b)"

definition uint128_mod :: "uint128 \<Rightarrow> uint128 \<Rightarrow> (divide_error + uint128) option" where
  "uint128_mod a b = map_option (map_sum id snd) (divide a b)"

text \<open>The specialisation of \<open>std::hash\<close>, over the platform's hash of a 64-bit integer.\<close>

definition uint128_hash :: "(u64 \<Rightarrow> u64) \<Rightarrow> uint128 \<Rightarrow> u64" where
  "uint128_hash hash64 k = 3 * hash64 (lo k) + hash64 (hi k)"

section \<open>Abstraction to 128-bit words\<close>

definition u128 :: "uint128 \<Rightarrow> 128 word" where
  "u128 x = word_cat (hi x) (lo x)"

lemma bit_u128:
  "bit (u128 x) n \<longleftrightarrow> n < 128 \<and> (if n < 64 then bit (lo x) n else bit (hi x) (n - 64))"
  by (auto simp: u128_def bit_word_cat_iff)

lemma u64_bounds: "unat (x :: u64) < 18446744073709551616"
  using unsigned_less [of x] by simp

lemma unat_ucast128: "unat (ucast (x :: u64) :: 128 word) = unat x"
  using u64_bounds [of x] by (simp add: unsigned_ucast_eq take_bit_eq_mod)

lemma u128_ring: "u128 x = push_bit 64 (ucast (hi x)) + ucast (lo x)"
    by (simp add: u128_def word_cat_eq)

lemma unat_u128: "unat (u128 x) = unat (hi x) * 2 ^ 64 + unat (lo x)"
  using u64_bounds [of "hi x"] u64_bounds [of "lo x"]
  by (simp add: u128_ring push_bit_eq_mult unat_word_ariths unat_ucast128)

lemma u128_inject: "u128 a = u128 b \<longleftrightarrow> a = b"
proof
  assume "u128 a = u128 b"
  then have eq: "unat (hi a) * 2 ^ 64 + unat (lo a) = unat (hi b) * 2 ^ 64 + unat (lo b)"
    by (metis unat_u128)
  have split: "(unat (hi x) * 2 ^ 64 + unat (lo x)) div 2 ^ 64 = unat (hi x)"
    "(unat (hi x) * 2 ^ 64 + unat (lo x)) mod 2 ^ 64 = unat (lo x)" for x
    using u64_bounds [of "lo x"] by simp_all
  from split [of a] split [of b] have "hi a = hi b" "lo a = lo b"
    unfolding eq by (simp_all add: word_unat_eq_iff)
  then show "a = b" by (simp add: uint128.expand)
qed simp

lemma hi_add: "push_bit 64 (ucast (a + b :: u64) :: 128 word) = push_bit 64 (ucast a) + push_bit 64 (ucast b)"
proof -
  have "((unat a + unat b) mod 2 ^ 64 * 2 ^ 64) mod 2 ^ 128 = ((unat a + unat b) * 2 ^ 64) mod (2 ^ 128 :: nat)"
    by (simp add: mult_mod_left)
  then show ?thesis
    by (simp add: push_bit_eq_mult word_unat_eq_iff unat_word_ariths mod_simps distrib_right unat_ucast128)
qed

lemma carry:
  "(ucast (a + b :: u64) :: 128 word) + (if a + b < a then push_bit 64 1 else 0) = ucast a + ucast b"
proof (cases "unat a + unat b < 2 ^ 64")
  case True
  then have "unat (a + b) = unat a + unat b" by (subst unat_plus_if') simp
  moreover from this have "\<not> a + b < a" by (simp add: word_less_nat_alt)
  ultimately show ?thesis using True by (simp add: word_unat_eq_iff unat_word_ariths unat_ucast128)
next
  case False
  then have s: "unat (a + b) = unat a + unat b - 2 ^ 64" by (subst unat_plus_if') simp
  with u64_bounds [of b] False have "a + b < a" by (simp add: word_less_nat_alt)
  with s False u64_bounds [of a] u64_bounds [of b] show ?thesis
    by (simp add: word_unat_eq_iff unat_word_ariths(1) unat_ucast128 del: unat_add_lem)
qed

lemma u128_add: "u128 (uint128_add a b) = u128 a + u128 b"
  using carry [of "lo a" "lo b"]
  by (cases "lo a + lo b < lo a") (simp_all add: u128_ring uint128_add_def Let_def hi_add ac_simps del: push_bit_of_1)

lemma bit_u64_bound: "bit (x :: u64) n \<Longrightarrow> n < 64"
  using bit_imp_le_length [of x n] by simp

lemma bit_cat: "bit (word_cat (h::u64) (l::u64) :: 128 word) n = (if n < 64 then bit l n else bit h (n - 64))"
  using bit_u64_bound [of h "n - 64"] by (auto simp: bit_word_cat_iff)

lemma bit_high_mask: "bit (NOT (mask m) :: u64) n \<longleftrightarrow> m \<le> n \<and> n < 64"
  by (auto simp: bit_not_iff bit_mask_iff)

lemma core_shl:
  assumes k: "0 < k" "k < 64"
  shows "(word_cat (push_bit k h OR drop_bit (64 - k) (l AND NOT (drop_bit k (- 1)))) (push_bit k l) :: 128 word) =
     push_bit k (word_cat (h::u64) (l::u64))" (is "?L = ?R")
proof (rule bit_word_eqI)
  fix n assume n: "n < LENGTH(128)"
  have e: "64 - k + (n - 64) = n - k" if "64 \<le> n" using k that by simp
  have f: "n - 64 - k = n - k - 64"  by simp
  have L: "bit ?L n \<longleftrightarrow> (if n < 64 then k \<le> n \<and> bit l (n - k)
      else k \<le> n - 64 \<and> bit h (n - 64 - k) \<or> bit l (n - k) \<and> n - k < 64)"
    using e n k by (auto simp: bit_cat bit_push_bit_iff bit_or_iff bit_drop_bit_eq bit_and_iff bit_high_mask
      dest: bit_u64_bound)
  have R: "bit ?R n \<longleftrightarrow> k \<le> n \<and> (if n - k < 64 then bit l (n - k) else bit h (n - k - 64))"
    using n by (auto simp: bit_push_bit_iff bit_cat)
  show "bit ?L n = bit ?R n" unfolding L R f using k bit_u64_bound [of l "n - k"] by auto
qed

lemma core_shr:
  assumes k: "0 < k" "k < 64"
  shows "(word_cat (drop_bit k h) (drop_bit k l OR push_bit (64 - k) (h AND NOT (push_bit k (- 1)))) :: 128 word) =
     drop_bit k (word_cat (h::u64) (l::u64))" (is "?L = ?R")
proof (rule bit_word_eqI)
  fix n assume n: "n < LENGTH(128)"
  have e: "n - (64 - k) = k + n - 64" if "64 - k \<le> n" using k that by simp
  have f: "k + (n - 64) = k + n - 64" if "64 \<le> n" using that by simp
  have L: "bit ?L n \<longleftrightarrow> (if n < 64 then bit l (k + n) \<or> 64 - k \<le> n \<and> bit h (k + n - 64)
      else bit h (k + n - 64))"
    using e f n k by (auto simp: bit_cat bit_push_bit_iff bit_or_iff bit_drop_bit_eq bit_and_iff bit_mask_iff
      dest: bit_u64_bound)
  have R: "bit ?R n \<longleftrightarrow> (if k + n < 64 then bit l (k + n) else bit h (k + n - 64))"
    by (simp add: bit_drop_bit_eq bit_cat)
  show "bit ?L n = bit ?R n" unfolding L R using k bit_u64_bound [of l "k + n"] by auto
qed

lemma core_shl64:
  assumes k: "k < 64"
  shows "(word_cat (push_bit k (l::u64)) (0::u64) :: 128 word) = push_bit (k + 64) (word_cat (h::u64) (l::u64))"
proof (rule bit_word_eqI)
  fix n assume n: "n < LENGTH(128)"
  have "n - 64 - k = n - (k + 64)" by simp
  with k n show "bit (word_cat (push_bit k l) (0::u64) :: 128 word) n = bit (push_bit (k + 64) (word_cat h l) :: 128 word) n"
    by (cases "64 \<le> n") (auto simp: bit_cat bit_push_bit_iff simp del: diff_diff_left)
qed
lemma core_shr64:
  assumes k: "k < 64"
  shows "(word_cat (0::u64) (drop_bit k h) :: 128 word) = drop_bit (k + 64) (word_cat (h::u64) (l::u64))"
proof (rule bit_word_eqI)
  fix n
  show "bit (word_cat (0::u64) (drop_bit k h) :: 128 word) n = bit (drop_bit (k + 64) (word_cat h l) :: 128 word) n"
    unfolding bit_cat bit_drop_bit_eq using bit_u64_bound [of h "k + n"] by (auto simp: comp_def)
qed
lemma u128_shl: "u128 (uint128_shl a r) = push_bit (unat (to_integer r)) (u128 a)"
proof -
  define n k where "n = to_integer r" and "k = unat n"
  have ge: "n \<ge> 128 \<longleftrightarrow> k \<ge> 128" "n \<ge> 64 \<longleftrightarrow> k \<ge> 64" "n = 0 \<longleftrightarrow> k = 0" "n = 64 \<longleftrightarrow> k = 64"
    by (simp_all add: k_def word_le_nat_alt word_unat_eq_iff)
  have sub: "64 \<le> k \<Longrightarrow> unat (n - 64) = k - 64" "k \<le> 64 \<Longrightarrow> unat (64 - n) = 64 - k"
    by (simp_all add: k_def unat_sub word_le_nat_alt)
  consider "k \<ge> 128" | "64 \<le> k" "k < 128" | "k < 64" "0 < k" | "k = 0" by linarith
  then show ?thesis
  proof cases
    case 1
    then show ?thesis by (simp add: uint128_shl_def n_def [symmetric] k_def [symmetric] ge u128_ring)
  next
    case 2
    then show ?thesis 
     using core_shl64 [of "k - 64" "lo a" "hi a"] 
     by (auto simp add: uint128_shl_def n_def [symmetric] k_def [symmetric] Let_def u128_def ge sub)
  next
    case 3
    then show ?thesis 
     using core_shl [of k "hi a" "lo a"] by (simp add: uint128_shl_def n_def [symmetric] k_def [symmetric] Let_def u128_def ge sub)
  next
    case 4
    then show ?thesis by (simp add: uint128_shl_def n_def [symmetric] k_def [symmetric] ge Let_def)
  qed
qed

lemma u128_shr: "u128 (uint128_shr a r) = drop_bit (unat (to_integer r)) (u128 a)"
proof -
  define n k where "n = to_integer r" and "k = unat n"
  have ge: "n \<ge> 128 \<longleftrightarrow> k \<ge> 128" "n \<ge> 64 \<longleftrightarrow> k \<ge> 64" "n = 0 \<longleftrightarrow> k = 0" "n = 64 \<longleftrightarrow> k = 64"
    by (simp_all add: k_def word_le_nat_alt word_unat_eq_iff)
  have sub: "64 \<le> k \<Longrightarrow> unat (n - 64) = k - 64" "k \<le> 64 \<Longrightarrow> unat (64 - n) = 64 - k"
    by (simp_all add: k_def unat_sub word_le_nat_alt)
  consider "k \<ge> 128" | "64 \<le> k" "k < 128" | "k < 64" "0 < k" | "k = 0" by linarith
  then show ?thesis
  proof cases
    case 1
    then show ?thesis by (simp add: uint128_shr_def n_def [symmetric] k_def [symmetric] ge u128_ring drop_bit_word_beyond)
  next
    case 2
    then show ?thesis 
     using core_shr64 [of "k - 64" "hi a" "lo a"] 
     by (auto simp add: uint128_shr_def n_def [symmetric] k_def [symmetric] Let_def u128_def ge sub)
  next
    case 3
    then show ?thesis 
     using core_shr [of k "hi a" "lo a"] by (simp add: uint128_shr_def n_def [symmetric] k_def [symmetric] Let_def u128_def ge sub)
  next
    case 4
    then show ?thesis by (simp add: uint128_shr_def n_def [symmetric] k_def [symmetric] ge Let_def)
  qed
qed

lemma u128_consts [simp]:
  "u128 (uint128_of_int 0) = 0" "u128 (uint128_of_int 1) = 1" "u128 (U128 0 0) = 0"
  by (simp_all add: u128_ring uint128_of_int_def)

lemma to_integer_uint [simp]: "to_integer (uint128_of_uint n) = n"
  by (rule bit_word_eqI) (simp add: to_integer_def uint128_of_uint_def bit_unsigned_iff)

lemma to_integer_consts [simp]:
  "to_integer (uint128_of_int 1) = 1" "to_integer (uint128_of_int 127) = 127"
  by (simp_all add: to_integer_def uint128_of_int_def)

lemma u128_eq_iff: "uint128_eq a b \<longleftrightarrow> u128 a = u128 b"
  unfolding u128_inject by (cases a; cases b) (auto simp: uint128_eq_def)

lemma u128_lt_iff: "uint128_lt a b \<longleftrightarrow> u128 a < u128 b"
  using u64_bounds [of "lo a"] u64_bounds [of "lo b"]
  by (auto simp: uint128_lt_def word_less_nat_alt unat_u128 word_unat_eq_iff)

lemma u128_not: "u128 (uint128_not a) = NOT (u128 a)"
  by (rule bit_word_eqI) (auto simp: bit_u128 uint128_not_def bit_not_iff)

lemma u128_and: "u128 (uint128_and a b) = u128 a AND u128 b"
  by (rule bit_word_eqI) (auto simp: bit_u128 uint128_and_def bit_and_iff)

lemma u128_or: "u128 (uint128_or a b) = u128 a OR u128 b"
  by (rule bit_word_eqI) (auto simp: bit_u128 uint128_or_def bit_or_iff)

lemma u128_xor: "u128 (uint128_xor a b) = u128 a XOR u128 b"
  by (rule bit_word_eqI) (auto simp: bit_u128 uint128_xor_def bit_xor_iff)

lemma u128_neg: "u128 (uint128_neg a) = - u128 a"
  by (simp add: uint128_neg_def u128_add u128_not minus_eq_not_plus_1)

lemma u128_sub: "u128 (uint128_sub a b) = u128 a - u128 b"
  by (simp add: uint128_sub_def u128_add u128_neg)

lemma u128_inc: "u128 (uint128_inc a) = u128 a + 1"
proof -
  have "lo a + 1 < lo a \<longleftrightarrow> lo a + 1 = 0"
    using u64_bounds [of "lo a"] by (auto simp: word_less_nat_alt word_unat_eq_iff unat_word_ariths mod_Suc)
  then have "uint128_inc a = uint128_add a (uint128_of_int 1)"
    by (simp add: uint128_inc_def uint128_add_def uint128_of_int_def Let_def)
  then show ?thesis by (simp add: u128_add)
qed

lemma u128_dec: "u128 (uint128_dec a) = u128 a - 1"
proof -
  have "uint128_inc (uint128_dec a) = a"
    by (cases a) (auto simp: uint128_inc_def uint128_dec_def Let_def)
  then show ?thesis by (metis u128_inc add_diff_cancel)
qed

lemma low_bit_split: "(w :: 128 word) = (w AND 1) + 2 * drop_bit 1 w"
proof -
  have "push_bit 1 (drop_bit 1 w) + take_bit 1 w = w" by (rule bits_ident)
  moreover have "push_bit 1 (drop_bit 1 w) = 2 * drop_bit 1 w" by (simp add: push_bit_eq_mult)
  moreover have "take_bit 1 w = w AND 1" by (simp add: take_bit_eq_mask)
  ultimately show ?thesis by (metis add.commute)
qed

lemma low_bit_cases: "(w :: 128 word) AND 1 = 0 \<or> w AND 1 = 1"
  by (simp add: and_one_eq mod_2_eq_odd)

lemma u128_mult_loop:
  "k + i = 128 \<Longrightarrow> u128 (uint128_mult_loop k a i t acc) = u128 acc + push_bit i (u128 a) * u128 t"
proof (induction k arbitrary: i t acc)
  case 0
  then show ?case by simp
next
  case (Suc k)
  then have i: "i < 128" by simp
  have n: "unat (of_nat i :: u32) = i" using i by (simp add: unat_of_nat)
  have "u128 (uint128_mult_loop (Suc k) a i t acc) =
      u128 acc + push_bit i (u128 a) * (u128 t AND 1) + push_bit (Suc i) (u128 a) * drop_bit 1 (u128 t)"
    using Suc low_bit_cases [of "u128 t"] by (auto simp: u128_eq_iff u128_and u128_shr u128_add u128_shl n)
  also have "\<dots> = u128 acc + push_bit i (u128 a) * ((u128 t AND 1) + 2 * drop_bit 1 (u128 t))"
    by (simp add: algebra_simps push_bit_Suc push_bit_double)
  finally show ?case unfolding low_bit_split [symmetric] .
qed

lemma u128_mult: "u128 (uint128_mult a b) = u128 a * u128 b"
  by (auto simp: uint128_mult_def u128_eq_iff u128_mult_loop)

text \<open>The value of a \<open>uint128\<close> as a natural number.\<close>

abbreviation V :: "uint128 \<Rightarrow> nat" where "V x \<equiv> unat (u128 x)"

lemma V_less: "V x < 2 ^ 128"
  using unsigned_less [of "u128 x"] by simp

lemma V_lt: "uint128_lt a b \<longleftrightarrow> V a < V b"
  by (simp add: u128_lt_iff word_less_nat_alt)

lemma V_eq0: "uint128_eq a (uint128_of_int 0) \<longleftrightarrow> V a = 0"
  by (simp add: u128_eq_iff word_unat_eq_iff)

lemma V_shl1: "V a < 2 ^ 127 \<Longrightarrow> V (uint128_shl a (uint128_of_int 1)) = 2 * V a"
  by (simp add: u128_shl push_bit_eq_mult unat_word_ariths)

lemma V_shr1: "V (uint128_shr a (uint128_of_int 1)) = V a div 2"
  by (simp add: u128_shr drop_bit_eq_div unat_div_distrib)

lemma V_top: "uint128_eq (uint128_and (uint128_shr d (uint128_of_int 127)) (uint128_of_int 1)) (uint128_of_int 0)
   \<longleftrightarrow> V d < 2 ^ 127"
proof -
  have "unat (drop_bit 127 (u128 d)) = V d div 2 ^ 127" 
    by (simp add: drop_bit_eq_div unat_div_distrib)
  moreover have "V d div 2 ^ 127 < 2" using V_less [of d] by (simp add: less_mult_imp_div_less)
  ultimately have "unat (drop_bit 127 (u128 d) AND 1) = V d div 2 ^ 127"
    by (simp add: and_one_eq unat_mod_distrib)
  then show ?thesis using V_less [of d]
    by (simp add: V_eq0 u128_and u128_shr div_eq_0_iff)
qed

lemma V_sub: "V b \<le> V a \<Longrightarrow> V (uint128_sub a b) = V a - V b"
  by (simp add: u128_sub unat_sub word_le_nat_alt)

lemma V_or_disjoint:
  assumes "V x = 2 ^ j" "2 ^ Suc j dvd V a" "V a + 2 ^ j < 2 ^ 128"
  shows "V (uint128_or a x) = V a + V x"
proof -
  have "j < 128" using assms(1) V_less [of x] by (metis power_less_imp_less_exp one_less_numeral_iff semiring_norm(76))
  have "u128 x = of_nat (V x)" by simp
  then have x: "u128 x = 2 ^ j" unfolding assms(1) by simp
  have "\<not> bit (V a) j" using assms(2) by (auto simp: bit_iff_odd dvd_def)
  then have "\<not> bit (u128 a) j" using \<open>j < 128\<close> by (simp add: bit_unsigned_iff)
  then have "u128 a AND u128 x = 0" unfolding x
    by (intro bit_word_eqI) (auto simp: bit_and_iff bit_exp_iff)
  then have "u128 a OR u128 x = u128 a + u128 x"
    by (simp add: disjunctive_add_eq_or)
  then have "V (uint128_or a x) = (V a + V x) mod 2 ^ 128"
    by (simp add: u128_or unat_word_ariths)
  then show ?thesis using assms by simp
qed

text \<open>The first loop returns the divisor shifted as far below the numerator as it fits.\<close>

lemma divide_align_correct:
  assumes "0 < D" "V d = D * 2 ^ i" "V x = 2 ^ i" "D * 2 ^ i < 2 ^ 128"
  shows "\<exists>d' x' j. divide_align n (d, x) = Some (d', x') \<and> V d' = D * 2 ^ j \<and> V x' = 2 ^ j \<and>
     V n < 2 * V d'"
  using assms
proof (induction "2 ^ 128 - V d" arbitrary: d x i rule: less_induct)
  case less
  show ?case
  proof (cases "V d \<le> V n \<and> V d < 2 ^ 127")
    case True
    let ?d = "uint128_shl d (uint128_of_int 1)" and ?x = "uint128_shl x (uint128_of_int 1)"
    have "V x \<le> V d" using less.prems by simp
    with True have V: "V ?d = 2 * V d" "V ?x = 2 * V x" by (simp_all add: V_shl1)
    have "V d > 0" using less.prems by simp
    with V V_less [of d] have m: "2 ^ 128 - V ?d < 2 ^ 128 - V d" by (intro diff_less_mono2) auto
    have "\<exists>d' x' j. divide_align n (?d, ?x) = Some (d', x') \<and> V d' = D * 2 ^ j \<and> V x' = 2 ^ j \<and>
       V n < 2 * V d'"
      using less.hyps [OF m, of "Suc i" ?x] less.prems V True by simp
    with True show ?thesis
      by (simp add: divide_align_def while_option_unfold [of _ _ "(d, x)"] V_lt V_top not_less)
  next
    case False
    then have stop: "divide_align n (d, x) = Some (d, x)"
      by (auto simp: divide_align_def while_option_unfold [of _ _ "(d, x)"] V_lt V_top)
    from False V_less [of n] have "V n < 2 * V d" by auto
    with stop less.prems show ?thesis by blast
  qed
qed

text \<open>One round of the second loop, before the shifts.\<close>

lemma divide_subtract_round:
  assumes "V d = D * 2 ^ j" "V x = 2 ^ j" "V n < 2 * V d" "2 ^ Suc j dvd V answer"
    "V answer * D + V n = N" "N < 2 ^ 128" "0 < D"
    and r: "(n', answer') = (if \<not> uint128_lt n d then (uint128_sub n d, uint128_or answer x) else (n, answer))"
  shows "V n' < V d" "2 ^ j dvd V answer'" "V answer' * D + V n' = N"
proof -
  have "V n' < V d \<and> 2 ^ j dvd V answer' \<and> V answer' * D + V n' = N"
  proof (cases "V d \<le> V n")
    case True
    have "(V answer + 2 ^ j) * D = V answer * D + V d" using assms(1) by (simp add: algebra_simps)
    also have "\<dots> \<le> N" using assms(5) True by simp
    finally have "(V answer + 2 ^ j) * D \<le> N" .
    then have "V answer + 2 ^ j \<le> N" using \<open>0 < D\<close> by (metis le_trans nat_mult_le_cancel_disj mult.right_neutral Suc_leI One_nat_def)
    then have "V (uint128_or answer x) = V answer + 2 ^ j"
      using V_or_disjoint [OF assms(2,4)] assms(2,6) by simp
    moreover have "V (uint128_sub n d) = V n - V d" using True by (rule V_sub)
    moreover have "n' = uint128_sub n d" "answer' = uint128_or answer x"
      using r True by (simp_all add: V_lt)
    moreover have "2 ^ j dvd V answer" using assms(4) by (metis power_Suc dvd_mult_right)
    ultimately show ?thesis
      using True assms(1,3,5) by (simp add: algebra_simps)
  next
    case False
    moreover have "2 ^ j dvd V answer" using assms(4) by (metis power_Suc dvd_mult_right)
    ultimately show ?thesis using r assms(5) by (simp add: V_lt)
  qed
  then show "V n' < V d" "2 ^ j dvd V answer'" "V answer' * D + V n' = N" by blast+
qed

lemma divide_subtract_unfold:
  "divide_subtract (n, d, x, answer) =
     (if V x = 0 then Some (n, d, x, answer)
      else let (n, answer) = (if \<not> uint128_lt n d then (uint128_sub n d, uint128_or answer x) else (n, answer))
        in divide_subtract (n, uint128_shr d (uint128_of_int 1), uint128_shr x (uint128_of_int 1), answer))"
  unfolding divide_subtract_def
  by (subst while_option_unfold) (simp add: V_eq0 Let_def split: prod.splits)

lemma divide_subtract_correct:
  assumes "V d = D * 2 ^ j" "V x = 2 ^ j" "V n < 2 * V d" "2 ^ Suc j dvd V answer"
    "V answer * D + V n = N" "N < 2 ^ 128" "0 < D"
  shows "\<exists>n' d' x' answer'. divide_subtract (n, d, x, answer) = Some (n', d', x', answer') \<and>
     V answer' * D + V n' = N \<and> V n' < D"
  using assms
proof (induction j arbitrary: n d x answer)
  case 0
  obtain n' answer' where r:
    "(n', answer') = (if \<not> uint128_lt n d then (uint128_sub n d, uint128_or answer x) else (n, answer))"
    by (metis surj_pair)
  note round = divide_subtract_round [OF 0 r]
  have "V (uint128_shr x (uint128_of_int 1)) = 0" using 0 by (simp add: V_shr1)
  then have "divide_subtract (n, d, x, answer) =
      Some (n', uint128_shr d (uint128_of_int 1), uint128_shr x (uint128_of_int 1), answer')"
    using 0(2) by (simp add: divide_subtract_unfold [of n] divide_subtract_unfold [of n'] flip: r)
  with round 0(1) show ?case by simp
next
  case (Suc j)
  obtain n' answer' where r:
    "(n', answer') = (if \<not> uint128_lt n d then (uint128_sub n d, uint128_or answer x) else (n, answer))"
    by (metis surj_pair)
  note round = divide_subtract_round [OF Suc.prems r]
  let ?d = "uint128_shr d (uint128_of_int 1)" and ?x = "uint128_shr x (uint128_of_int 1)"
  have "V ?d = D * 2 ^ j" "V ?x = 2 ^ j" using Suc.prems(1,2) by (simp_all add: V_shr1)
  moreover from this round(1) Suc.prems(1) have "V n' < 2 * V ?d" by simp
  ultimately have "\<exists>m d' x' q. divide_subtract (n', ?d, ?x, answer') = Some (m, d', x', q) \<and> V q * D + V m = N \<and> V m < D"
    using Suc.IH [of ?d ?x n' answer'] round(2,3) Suc.prems(6,7) by simp
  moreover have "divide_subtract (n, d, x, answer) = divide_subtract (n', ?d, ?x, answer')"
    using Suc.prems(2) by (simp add: divide_subtract_unfold [of n d] flip: r)
  ultimately show ?case by simp
qed

lemma divide_total:
  assumes "V b \<noteq> 0"
  shows "\<exists>q r. divide a b = Some (Inr (q, r)) \<and> V q = V a div V b \<and> V r = V a mod V b"
proof -
  obtain d x j where align: "divide_align a (b, uint128_of_int 1) = Some (d, x)"
    "V d = V b * 2 ^ j" "V x = 2 ^ j" "V a < 2 * V d"
    using divide_align_correct [of "V b" b 0 "uint128_of_int 1" a] assms V_less [of b] by auto
  have "V (uint128_of_int 0) = 0" by simp
  then obtain r d' x' q where sub: "divide_subtract (a, d, x, uint128_of_int 0) = Some (r, d', x', q)"
    "V q * V b + V r = V a" "V r < V b"
    using divide_subtract_correct [OF align(2-4), of "uint128_of_int 0" "V a"] assms V_less [of a] by auto
  have "V q = V a div V b" "V r = V a mod V b"
    using sub(3) unfolding sub(2) [symmetric] by simp_all
  with align sub(1) assms show ?thesis by (auto simp: divide_def V_eq0)
qed

section \<open>The class as an ordered type\<close>

instantiation uint128 :: linorder
begin

definition less_uint128 :: "uint128 \<Rightarrow> uint128 \<Rightarrow> bool" where
  "less_uint128 a b = uint128_lt a b"

definition less_eq_uint128 :: "uint128 \<Rightarrow> uint128 \<Rightarrow> bool" where
  "less_eq_uint128 a b = (\<not> uint128_lt b a)"

instance
proof
  fix x y z :: uint128
  show "x < y \<longleftrightarrow> x \<le> y \<and> \<not> y \<le> x" "x \<le> x" "x \<le> y \<or> y \<le> x"
    by (auto simp: less_uint128_def less_eq_uint128_def u128_lt_iff)
  show "x \<le> y \<Longrightarrow> y \<le> z \<Longrightarrow> x \<le> z"
    by (simp add: less_eq_uint128_def u128_lt_iff)
  show "x \<le> y \<Longrightarrow> y \<le> x \<Longrightarrow> x = y"
    by (simp add: less_eq_uint128_def u128_lt_iff u128_inject flip: order_eq_iff)
qed

end

lemma less_uint128_iff: "a < b \<longleftrightarrow> V a < V b"
  by (simp add: less_uint128_def V_lt)

lemma less_eq_uint128_iff: "a \<le> b \<longleftrightarrow> V a \<le> V b"
  by (simp add: less_eq_uint128_def V_lt not_less)

text \<open>\<open>operator<\<close> meets the contract of the ordered containers, with all values as keys.\<close>

interpretation u128_order: strict_weak_order UNIV uint128_lt
  by unfold_locales (auto simp: V_lt)

section \<open>Properties of the class\<close>

text \<open>
  C16: the arithmetic operators over the two halves compute the arithmetic of 128-bit
  words: addition with its carry, negation, subtraction, the shift-and-add product, the
  steps by one.
\<close>

theorem uint128_arithmetic_refines:
  "u128 (uint128_add a b) = u128 a + u128 b \<and>
   u128 (uint128_neg a) = - u128 a \<and>
   u128 (uint128_sub a b) = u128 a - u128 b \<and>
   u128 (uint128_mult a b) = u128 a * u128 b \<and>
   u128 (uint128_inc a) = u128 a + 1 \<and>
   u128 (uint128_dec a) = u128 a - 1"
  by (simp add: u128_add u128_neg u128_sub u128_mult u128_inc u128_dec)

text \<open>
  C17: comparison, the bitwise operators and both shifts, on every shift count (those
  of 64 and of 128 or more included), are those of 128-bit words.
\<close>

theorem uint128_bits_refine:
  "(uint128_eq a b \<longleftrightarrow> u128 a = u128 b) \<and>
   (uint128_lt a b \<longleftrightarrow> u128 a < u128 b) \<and>
   u128 (uint128_not a) = NOT (u128 a) \<and>
   u128 (uint128_and a b) = u128 a AND u128 b \<and>
   u128 (uint128_or a b) = u128 a OR u128 b \<and>
   u128 (uint128_xor a b) = u128 a XOR u128 b \<and>
   u128 (uint128_shl a r) = push_bit (unat (to_integer r)) (u128 a) \<and>
   u128 (uint128_shr a r) = drop_bit (unat (to_integer r)) (u128 a)"
  by (simp add: u128_eq_iff u128_lt_iff u128_not u128_and u128_or u128_xor u128_shl u128_shr)

text \<open>
  C15: for a non-zero divisor both loops of \<open>divide\<close> end and the results are the
  Euclidean quotient and remainder; a zero divisor throws.
\<close>

theorem divide_correct:
  "(u128 b = 0 \<and> divide a b = Some (Inl DivideByZero)) \<or>
   (\<exists>q r. divide a b = Some (Inr (q, r)) \<and>
      u128 q = u128 a div u128 b \<and> u128 r = u128 a mod u128 b \<and> u128 b \<noteq> 0)"
proof (cases "V b = 0")
  case True
  then show ?thesis by (simp add: divide_def V_eq0 unat_eq_zero)
next
  case False
  then show ?thesis using divide_total [OF False, of a]
    by (auto simp: word_unat_eq_iff unat_div_distrib unat_mod_distrib)
qed

end
