(* ===== verification/Uint128_Text.thy ===== *)
theory Uint128_Text
  imports Uint128
begin

text \<open>
  Printing and parsing of \<open>uint128\<close> (\<open>to_string\<close>, the constructor from \<open>std::string\<close>
  and \<open>operator<<\<close>).  The configuration file and the command line give ring positions
  in this notation.  \<open>to_string\<close> fills a buffer of 129 bytes from index 126 downwards:
  the loop below counts the free bytes, so it stops after 127 digits.
\<close>

section \<open>Definitions\<close>

definition digit_char :: "nat \<Rightarrow> char" where
  "digit_char k = (''0123456789abcdefghijklmnopqrstuvwxyz'' @ [CHR 0x00]) ! k"

fun to_string_loop :: "nat \<Rightarrow> u32 \<Rightarrow> uint128 \<Rightarrow> string \<Rightarrow> string option" where
  "to_string_loop 0 radix ii sz = Some sz"
| "to_string_loop (Suc i) radix ii sz =
     (if uint128_eq ii (uint128_of_int 0) then Some sz
      else
        (case divide ii (uint128_of_uint radix) of
           Some (Inr (q, r)) \<Rightarrow>
             to_string_loop i radix q (digit_char (unat (to_integer r)) # sz)
         | _ \<Rightarrow> None))"

definition uint128_to_string :: "u32 \<Rightarrow> uint128 \<Rightarrow> string option" where
  "uint128_to_string radix x =
     (if uint128_eq x (uint128_of_int 0) then Some ''0''
      else if radix < 2 \<or> radix > 37 then Some ''(invalid radix)''
      else map_option (takeWhile (\<lambda>c. c \<noteq> CHR 0x00)) (to_string_loop 127 radix x []))"

definition parse_digit :: "nat \<Rightarrow> char \<Rightarrow> u32 option" where
  "parse_digit radix ch =
     (let c = (of_char ch :: nat) in
      if 65 \<le> c \<and> c \<le> 90 then (if (c - 65) + 10 < radix then Some (of_nat ((c - 65) + 10)) else None)
      else if 97 \<le> c \<and> c \<le> 122 then (if (c - 97) + 10 < radix then Some (of_nat ((c - 97) + 10)) else None)
      else if 48 \<le> c \<and> c \<le> 57 then (if c - 48 < radix then Some (of_nat (c - 48)) else None)
      else None)"

fun parse_loop :: "nat \<Rightarrow> uint128 \<Rightarrow> string \<Rightarrow> uint128" where
  "parse_loop radix acc [] = acc"
| "parse_loop radix acc (ch # cs) =
     (case parse_digit radix ch of
        None \<Rightarrow> acc
      | Some n \<Rightarrow>
          parse_loop radix
            (uint128_add (uint128_mult acc (uint128_of_int (of_nat radix))) (uint128_of_uint n)) cs)"

definition parse_unsigned :: "string \<Rightarrow> uint128" where
  "parse_unsigned s =
     (case s of
        [] \<Rightarrow> U128 0 0
      | c # cs \<Rightarrow>
          if c = CHR ''0'' then
            (case cs of
               [] \<Rightarrow> parse_loop 8 (U128 0 0) []
             | d # ds \<Rightarrow>
                 if d = CHR ''x'' then parse_loop 16 (U128 0 0) ds else parse_loop 8 (U128 0 0) cs)
          else parse_loop 10 (U128 0 0) s)"

definition uint128_of_string :: "string \<Rightarrow> uint128" where
  "uint128_of_string sz =
     (case sz of
        [] \<Rightarrow> U128 0 0
      | c # cs \<Rightarrow>
          if c = CHR ''-'' then uint128_neg (parse_unsigned cs) else parse_unsigned sz)"

text \<open>
  \<open>operator<<\<close> switches on the base bits among the flags of the stream and appends the
  text; any combination other than a single base prints in the default radix, ten.
\<close>

record ios_base =
  hex_flag :: bool
  dec_flag :: bool
  oct_flag :: bool

definition uint128_output :: "ios_base \<Rightarrow> string \<Rightarrow> uint128 \<Rightarrow> string option" where
  "uint128_output flags os n =
     map_option ((@) os)
       (uint128_to_string
          (if hex_flag flags \<and> \<not> dec_flag flags \<and> \<not> oct_flag flags then 16
           else if dec_flag flags \<and> \<not> hex_flag flags \<and> \<not> oct_flag flags then 10
           else if oct_flag flags \<and> \<not> hex_flag flags \<and> \<not> dec_flag flags then 8
           else 10) n)"

section \<open>The loops of \<open>to_string\<close> and of the parser\<close>

abbreviation digits_value :: "nat \<Rightarrow> nat list \<Rightarrow> nat" where
  "digits_value radix ks \<equiv> foldl (\<lambda>a k. a * radix + k) 0 ks"

lemma u32_bounds: "unat (x :: u32) < 4294967296"
  using unsigned_less [of x] by simp

lemma V_uint: "V (uint128_of_uint n) = unat n"
  using u32_bounds [of n] by (simp add: unat_u128 uint128_of_uint_def unsigned_ucast_eq take_bit_eq_mod)

lemma to_integer_small: "V r < 2 ^ 32 \<Longrightarrow> unat (to_integer r) = V r"
  by (simp add: to_integer_def unat_u128 unsigned_ucast_eq take_bit_eq_mod)

lemma to_string_loop_digits:
  assumes R: "2 \<le> unat radix"
  shows "\<exists>ks. to_string_loop i radix ii sz = Some (map digit_char ks @ sz) \<and>
     (\<forall>k\<in>set ks. k < unat radix) \<and> digits_value (unat radix) ks = V ii mod unat radix ^ i \<and>
     length ks \<le> i \<and> (0 < V ii \<longrightarrow> V ii < unat radix ^ i \<longrightarrow> ks \<noteq> [] \<and> hd ks \<noteq> 0)"
proof (induction i arbitrary: ii sz)
  case 0
  then show ?case by simp
next
  case (Suc i)
  show ?case
  proof (cases "V ii = 0")
    case True
    then show ?thesis by (simp add: V_eq0)
  next
    case False
    obtain q r where d: "divide ii (uint128_of_uint radix) = Some (Inr (q, r))"
      "V q = V ii div unat radix" "V r = V ii mod unat radix"
      using divide_total [of "uint128_of_uint radix" ii] R by (auto simp: V_uint)
    have r: "V r < unat radix" using d(3) R by simp
    then have ti: "unat (to_integer r) = V r"
      using u32_bounds [of radix] by (intro to_integer_small) simp
    obtain ks where ks: "to_string_loop i radix q (digit_char (V r) # sz) = Some (map digit_char ks @ digit_char (V r) # sz)"
      "\<forall>k\<in>set ks. k < unat radix" "digits_value (unat radix) ks = V q mod unat radix ^ i" "length ks \<le> i"
      "0 < V q \<longrightarrow> V q < unat radix ^ i \<longrightarrow> ks \<noteq> [] \<and> hd ks \<noteq> 0"
      using Suc by blast
    have "digits_value (unat radix) (ks @ [V r]) = V ii mod unat radix ^ Suc i"
      using ks(3) d(2,3) by (simp add: mod_mult2_eq mult.commute)
    moreover have "hd (ks @ [V r]) \<noteq> 0" if "V ii < unat radix ^ Suc i"
    proof (cases "V q = 0")
      case True
      then have "V r \<noteq> 0" using d False by (metis mod_div_mult_eq mult_0 add_0_right)
      moreover have "ks = []" 
        using ks(1) True by (cases i) (auto simp: V_eq0)
      ultimately show ?thesis by simp
    next
      case False
      moreover have "V q < unat radix ^ i" using that d(2) R by (simp add: less_mult_imp_div_less mult.commute)
      ultimately show ?thesis using ks(5) by simp
    qed
    ultimately show ?thesis
      using ks r d(1) ti False by (intro exI [of _ "ks @ [V r]"]) (auto simp: V_eq0)
  qed
qed


lemma digit_cases: "k < 10 \<Longrightarrow> k \<in> {0, 1, 2, 3, 4, 5, 6, 7, 8, 9 :: nat}"
  by auto

lemma parse_digit_char: "k < 10 \<Longrightarrow> parse_digit 10 (digit_char k) = Some (of_nat k)"
  by (drule digit_cases) (auto simp: digit_char_def parse_digit_def)

lemma u128_of_uint: "u128 (uint128_of_uint n) = of_nat (unat n)"
proof -
  have "u128 (uint128_of_uint n) = of_nat (V (uint128_of_uint n))" by simp
  then show ?thesis by (simp only: V_uint)
qed

lemma parse_loop_digits:
  assumes "\<forall>k\<in>set ks. k < 10" "u128 acc = of_nat a"
  shows "u128 (parse_loop 10 acc (map digit_char ks)) = of_nat (foldl (\<lambda>a k. a * 10 + k) a ks)"
  using assms
proof (induction ks arbitrary: acc a)
  case Nil
  then show ?case by simp
next
  case (Cons k ks)
  let ?acc = "uint128_add (uint128_mult acc (uint128_of_int 10)) (uint128_of_uint (of_nat k))"
  have "k < 10" using Cons.prems by simp
  then have "unat (of_nat k :: u32) = k" by (simp add: unat_of_nat)
  then have "u128 ?acc = of_nat (a * 10 + k)"
    using Cons.prems(2)
    by (simp add: u128_add u128_mult u128_of_uint) (simp add: u128_ring uint128_of_int_def)
  with Cons show ?case by (simp add: parse_digit_char)
qed

lemma digit_char_not_nul:
  assumes "k < 36"
  shows "digit_char k \<noteq> CHR 0x00"
proof -
  have "digit_char k \<in> set ''0123456789abcdefghijklmnopqrstuvwxyz''"
    using assms unfolding digit_char_def nth_append by (subst if_P) (simp, rule nth_mem, simp)
  then show ?thesis by auto
qed

lemma radix_bounds:
  assumes "2 \<le> radix" "radix \<le> (36 :: u32)"
  shows "2 \<le> unat radix" "unat radix \<le> 36" "\<not> radix < 2" "\<not> 37 < radix"
proof -
  show u: "2 \<le> unat radix" "unat radix \<le> 36" using assms by (simp_all only: word_le_nat_alt unat_numeral) simp_all
  show "\<not> radix < 2" using assms(1) by (simp only: not_less)
  have "radix \<le> 37" using u(2) by (simp only: word_le_nat_alt) simp
  then show "\<not> 37 < radix" by (simp only: not_less)
qed

lemma to_string_digits:
  assumes "2 \<le> radix" "radix \<le> 36"
  shows "\<exists>ks. uint128_to_string radix x = Some (map digit_char ks) \<and> (\<forall>k\<in>set ks. k < unat radix) \<and>
     digits_value (unat radix) ks = V x mod unat radix ^ 127 \<and>
     (0 < V x \<longrightarrow> V x < unat radix ^ 127 \<longrightarrow> ks \<noteq> [] \<and> hd ks \<noteq> 0)"
proof (cases "V x = 0")
  case True
  then have "uint128_to_string radix x = Some (map digit_char [0])"
    by (simp add: uint128_to_string_def V_eq0 digit_char_def)
  with True radix_bounds(1) [OF assms] show ?thesis
    by (intro exI [of _ "[0]"]) simp
next
  case False
  note R = radix_bounds [OF assms]
  obtain ks where ks: "to_string_loop 127 radix x [] = Some (map digit_char ks)"
    "\<forall>k\<in>set ks. k < unat radix" "digits_value (unat radix) ks = V x mod unat radix ^ 127"
    "0 < V x \<longrightarrow> V x < unat radix ^ 127 \<longrightarrow> ks \<noteq> [] \<and> hd ks \<noteq> 0"
    using to_string_loop_digits [OF R(1), of 127 x "[]"] unfolding append_Nil2
    by (elim exE conjE) (rule that)
  have nn: "\<forall>k\<in>set ks. digit_char k \<noteq> CHR 0x00"
    using ks(2) R(2) by (meson digit_char_not_nul less_le_trans)
  have "takeWhile (\<lambda>c. c \<noteq> CHR 0x00) (map digit_char ks) = map digit_char ks"
    using nn by (subst takeWhile_eq_all_conv) (simp only: set_map ball_simps)
  then have "uint128_to_string radix x = Some (map digit_char ks)"
    using False R(3,4) unfolding uint128_to_string_def V_eq0 ks(1) by simp
  then show ?thesis by (intro exI [of _ ks] conjI ks(2-4))
qed

lemma parse_unsigned_digits:
  assumes "ks \<noteq> []" "hd ks \<noteq> 0" "\<forall>k\<in>set ks. k < 10"
  shows "uint128_of_string (map digit_char ks) = parse_loop 10 (U128 0 0) (map digit_char ks)"
proof -
  obtain k rest where ks: "ks = k # rest" using assms(1) by (cases ks) auto
  then have "k < 10" "k \<noteq> 0" using assms by auto
  then have "digit_char k \<noteq> CHR ''-''" "digit_char k \<noteq> CHR ''0''"
    by (drule_tac digit_cases, auto simp: digit_char_def)+
  then show ?thesis by (simp add: ks uint128_of_string_def parse_unsigned_def)
qed

lemma to_string_parse: "\<exists>s. uint128_to_string 10 x = Some s \<and> uint128_of_string s = x"
proof (cases "V x = 0")
  case True
  then have "x = U128 0 0" by (metis u128_inject u128_consts(3) unat_eq_zero)
  then show ?thesis
    by (simp add: uint128_to_string_def uint128_eq_def uint128_of_int_def uint128_of_string_def parse_unsigned_def)
next
  case False
  have big: "V x < 10 ^ 127" using V_less [of x] by simp
  obtain ks where ks: "uint128_to_string 10 x = Some (map digit_char ks)" "\<forall>k\<in>set ks. k < 10"
    "digits_value 10 ks = V x" "ks \<noteq> []" "hd ks \<noteq> 0"
    using to_string_digits [of 10 x] False big by auto
  have "u128 (uint128_of_string (map digit_char ks)) = of_nat (V x)"
    using parse_loop_digits [OF ks(2), of "U128 0 0" 0] parse_unsigned_digits [OF ks(4,5,2)] ks(3) by simp
  then have "uint128_of_string (map digit_char ks) = x" by (simp add: u128_inject)
  with ks(1) show ?thesis by blast
qed

section \<open>Properties\<close>

text \<open>
  printing in a radix from 2 to 36 ends, and the digits printed denote the number
  modulo the 127th power of the radix: every number in full for radix 3 and above, the
  low 127 binary digits for radix 2.
\<close>

theorem to_string_value:
  assumes "2 \<le> radix" "radix \<le> 36"
  shows "\<exists>ks. uint128_to_string radix x = Some (map digit_char ks) \<and> list_all (\<lambda>k. k < unat radix) ks \<and>
     digits_value (unat radix) ks = unat (u128 x) mod unat radix ^ 127"
  using to_string_digits [OF assms, of x] by (auto simp: list_all_iff)

theorem to_string_value_witness:
  "\<exists>ks. uint128_to_string 16 (U128 255 0) = Some (map digit_char ks) \<and> list_all (\<lambda>k. k < 16) ks \<and>
     digits_value 16 ks = 255"
  using to_string_value [of 16 "U128 255 0"] by (simp add: unat_u128)

text \<open>
  C26: the constructor from \<open>std::string\<close> reads back what \<open>to_string()\<close> prints in radix 10,
  for every value of the class.
\<close>

theorem to_string_round_trip:
  "\<exists>s. uint128_to_string 10 x = Some s \<and> uint128_of_string s = x"
  by (rule to_string_parse)

end
