(* ===== verification/Murmur.thy ===== *)
theory Murmur
  imports Uint128
begin

text \<open>
  The hash functions of \<open>thirdparty/src/MurmurHash3/MurmurHash3.cpp\<close> and the wrapper
  \<open>util::murmur_hash3\<close>, which maps a queue name to its position on the ring.  A key is a
  list of bytes; its length stands for the parameter \<open>len\<close>, which callers pass as the
  length of the key and which the code assumes to be below \<open>2^31\<close>.  Words are read
  from memory in little-endian order, as on the x86-64 targets of the build.
\<close>

unbundle bit_operations_syntax

section \<open>Definitions\<close>

definition rotl32 :: "u32 \<Rightarrow> nat \<Rightarrow> u32" where
  "rotl32 x r = (push_bit r x OR drop_bit (32 - r) x)"

definition rotl64 :: "u64 \<Rightarrow> nat \<Rightarrow> u64" where
  "rotl64 x r = (push_bit r x OR drop_bit (64 - r) x)"

text \<open>Reading an integer of the target's little-endian byte order out of memory.\<close>

fun le_word :: "u8 list \<Rightarrow> 'a::len word" where
  "le_word [] = 0"
| "le_word (b # bs) = ucast b OR push_bit 8 (le_word bs)"

definition getblock32 :: "u8 list \<Rightarrow> nat \<Rightarrow> u32" where
  "getblock32 p i = le_word (take 4 (drop (4 * i) p))"

definition getblock64 :: "u8 list \<Rightarrow> nat \<Rightarrow> u64" where
  "getblock64 p i = le_word (take 8 (drop (8 * i) p))"

definition fmix32 :: "u32 \<Rightarrow> u32" where
  "fmix32 h =
     (let h = h XOR drop_bit 16 h;
          h = h * 0x85ebca6b;
          h = h XOR drop_bit 13 h;
          h = h * 0xc2b2ae35
      in h XOR drop_bit 16 h)"

definition fmix64 :: "u64 \<Rightarrow> u64" where
  "fmix64 k =
     (let k = k XOR drop_bit 33 k;
          k = k * 0xff51afd7ed558ccd;
          k = k XOR drop_bit 33 k;
          k = k * 0xc4ceb9fe1a85ec53
      in k XOR drop_bit 33 k)"

text \<open>
  A \<open>switch\<close> whose cases fall through runs, for selector \<open>n\<close>, every statement labelled
  with a case \<open>c \<le> n\<close>, the largest first: \<open>fall n c f\<close> is the statement \<open>f\<close> under the
  label \<open>c\<close>.
\<close>

definition fall :: "nat \<Rightarrow> nat \<Rightarrow> ('a \<Rightarrow> 'a) \<Rightarrow> 'a \<Rightarrow> 'a" where
  "fall n c f k = (if 1 \<le> c \<and> c \<le> n then f k else k)"

abbreviation tail_byte :: "u8 list \<Rightarrow> nat \<Rightarrow> nat \<Rightarrow> 'a::len word \<Rightarrow> 'a word" where
  "tail_byte tail i s k \<equiv> k XOR push_bit s (ucast (tail ! i))"

definition MurmurHash3_x86_32 :: "u8 list \<Rightarrow> u32 \<Rightarrow> u32" where
  "MurmurHash3_x86_32 data seed =
     (let len = length data;
          nblocks = len div 4;
          c1 = 0xcc9e2d51;
          c2 = 0x1b873593;
          h1 = fold (\<lambda>i h1.
                 let k1 = getblock32 data (nat (int nblocks + i)) * c1;
                     k1 = rotl32 k1 15;
                     k1 = k1 * c2;
                     h1 = h1 XOR k1;
                     h1 = rotl32 h1 13
                 in h1 * 5 + 0xe6546b64) [- int nblocks .. - 1] seed;
          tail = drop (nblocks * 4) data;
          n = len mod 4;
          k1 = fall n 3 (tail_byte tail 2 16) 0;
          k1 = fall n 2 (tail_byte tail 1 8) k1;
          k1 = fall n 1 (tail_byte tail 0 0) k1;
          h1 = fall n 1 (\<lambda>h1. h1 XOR (rotl32 (k1 * c1) 15 * c2)) h1;
          h1 = h1 XOR of_nat len
      in fmix32 h1)"

definition x86_128_body :: "u32 \<times> u32 \<times> u32 \<times> u32 \<Rightarrow> u32 \<times> u32 \<times> u32 \<times> u32 \<Rightarrow> u32 \<times> u32 \<times> u32 \<times> u32" where
  "x86_128_body = (\<lambda>(k1, k2, k3, k4) (h1, h2, h3, h4).
     let c1 = 0x239b961b;
         c2 = 0xab0e9789;
         c3 = 0x38b34ae5;
         c4 = 0xa1e38b93;
         k1 = k1 * c1; k1 = rotl32 k1 15; k1 = k1 * c2; h1 = h1 XOR k1;
         h1 = rotl32 h1 19; h1 = h1 + h2; h1 = h1 * 5 + 0x561ccd1b;
         k2 = k2 * c2; k2 = rotl32 k2 16; k2 = k2 * c3; h2 = h2 XOR k2;
         h2 = rotl32 h2 17; h2 = h2 + h3; h2 = h2 * 5 + 0x0bcaa747;
         k3 = k3 * c3; k3 = rotl32 k3 17; k3 = k3 * c4; h3 = h3 XOR k3;
         h3 = rotl32 h3 15; h3 = h3 + h4; h3 = h3 * 5 + 0x96cd1c35;
         k4 = k4 * c4; k4 = rotl32 k4 18; k4 = k4 * c1; h4 = h4 XOR k4;
         h4 = rotl32 h4 13; h4 = h4 + h1; h4 = h4 * 5 + 0x32ac3b17
     in (h1, h2, h3, h4))"

definition x86_128_tail :: "u8 list \<Rightarrow> nat \<Rightarrow> u32 \<times> u32 \<times> u32 \<times> u32 \<Rightarrow> u32 \<times> u32 \<times> u32 \<times> u32" where
  "x86_128_tail tail n = (\<lambda>(h1, h2, h3, h4).
     let c1 = 0x239b961b;
         c2 = 0xab0e9789;
         c3 = 0x38b34ae5;
         c4 = 0xa1e38b93;
         k4 = fall n 15 (tail_byte tail 14 16) 0;
         k4 = fall n 14 (tail_byte tail 13 8) k4;
         k4 = fall n 13 (tail_byte tail 12 0) k4;
         h4 = fall n 13 (\<lambda>h4. h4 XOR (rotl32 (k4 * c4) 18 * c1)) h4;
         k3 = fall n 12 (tail_byte tail 11 24) 0;
         k3 = fall n 11 (tail_byte tail 10 16) k3;
         k3 = fall n 10 (tail_byte tail 9 8) k3;
         k3 = fall n 9 (tail_byte tail 8 0) k3;
         h3 = fall n 9 (\<lambda>h3. h3 XOR (rotl32 (k3 * c3) 17 * c4)) h3;
         k2 = fall n 8 (tail_byte tail 7 24) 0;
         k2 = fall n 7 (tail_byte tail 6 16) k2;
         k2 = fall n 6 (tail_byte tail 5 8) k2;
         k2 = fall n 5 (tail_byte tail 4 0) k2;
         h2 = fall n 5 (\<lambda>h2. h2 XOR (rotl32 (k2 * c2) 16 * c3)) h2;
         k1 = fall n 4 (tail_byte tail 3 24) 0;
         k1 = fall n 3 (tail_byte tail 2 16) k1;
         k1 = fall n 2 (tail_byte tail 1 8) k1;
         k1 = fall n 1 (tail_byte tail 0 0) k1;
         h1 = fall n 1 (\<lambda>h1. h1 XOR (rotl32 (k1 * c1) 15 * c2)) h1
     in (h1, h2, h3, h4))"

definition x86_128_final :: "nat \<Rightarrow> u32 \<times> u32 \<times> u32 \<times> u32 \<Rightarrow> u32 \<times> u32 \<times> u32 \<times> u32" where
  "x86_128_final len = (\<lambda>(h1, h2, h3, h4).
     let l = of_nat len;
         h1 = h1 XOR l; h2 = h2 XOR l; h3 = h3 XOR l; h4 = h4 XOR l;
         h1 = h1 + h2; h1 = h1 + h3; h1 = h1 + h4;
         h2 = h2 + h1; h3 = h3 + h1; h4 = h4 + h1;
         h1 = fmix32 h1;
         h2 = fmix32 h2;
         h3 = fmix32 h3;
         h4 = fmix32 h4;
         h1 = h1 + h2; h1 = h1 + h3; h1 = h1 + h4;
         h2 = h2 + h1; h3 = h3 + h1; h4 = h4 + h1
     in (h1, h2, h3, h4))"

text \<open>The block pointer points past the last block and the index runs from \<open>-nblocks\<close> to 0.\<close>

definition MurmurHash3_x86_128 :: "u8 list \<Rightarrow> u32 \<Rightarrow> u32 \<times> u32 \<times> u32 \<times> u32" where
  "MurmurHash3_x86_128 data seed =
     (let len = length data;
          nblocks = len div 16;
          block = (\<lambda>i. getblock32 data (nat (int nblocks * 4 + i)));
          h = fold (\<lambda>i. x86_128_body (block (i * 4 + 0), block (i * 4 + 1), block (i * 4 + 2), block (i * 4 + 3)))
                [- int nblocks .. - 1] (seed, seed, seed, seed);
          tail = drop (nblocks * 16) data
      in x86_128_final len (x86_128_tail tail (len mod 16) h))"

definition x64_body :: "u64 \<times> u64 \<Rightarrow> u64 \<times> u64 \<Rightarrow> u64 \<times> u64" where
  "x64_body = (\<lambda>(k1, k2) (h1, h2).
     let c1 = 0x87c37b91114253d5;
         c2 = 0x4cf5ad432745937f;
         k1 = k1 * c1; k1 = rotl64 k1 31; k1 = k1 * c2; h1 = h1 XOR k1;
         h1 = rotl64 h1 27; h1 = h1 + h2; h1 = h1 * 5 + 0x52dce729;
         k2 = k2 * c2; k2 = rotl64 k2 33; k2 = k2 * c1; h2 = h2 XOR k2;
         h2 = rotl64 h2 31; h2 = h2 + h1; h2 = h2 * 5 + 0x38495ab5
     in (h1, h2))"

definition x64_tail :: "u8 list \<Rightarrow> nat \<Rightarrow> u64 \<times> u64 \<Rightarrow> u64 \<times> u64" where
  "x64_tail tail n = (\<lambda>(h1, h2).
     let c1 = 0x87c37b91114253d5;
         c2 = 0x4cf5ad432745937f;
         k2 = fall n 15 (tail_byte tail 14 48) 0;
         k2 = fall n 14 (tail_byte tail 13 40) k2;
         k2 = fall n 13 (tail_byte tail 12 32) k2;
         k2 = fall n 12 (tail_byte tail 11 24) k2;
         k2 = fall n 11 (tail_byte tail 10 16) k2;
         k2 = fall n 10 (tail_byte tail 9 8) k2;
         k2 = fall n 9 (tail_byte tail 8 0) k2;
         h2 = fall n 9 (\<lambda>h2. h2 XOR (rotl64 (k2 * c2) 33 * c1)) h2;
         k1 = fall n 8 (tail_byte tail 7 56) 0;
         k1 = fall n 7 (tail_byte tail 6 48) k1;
         k1 = fall n 6 (tail_byte tail 5 40) k1;
         k1 = fall n 5 (tail_byte tail 4 32) k1;
         k1 = fall n 4 (tail_byte tail 3 24) k1;
         k1 = fall n 3 (tail_byte tail 2 16) k1;
         k1 = fall n 2 (tail_byte tail 1 8) k1;
         k1 = fall n 1 (tail_byte tail 0 0) k1;
         h1 = fall n 1 (\<lambda>h1. h1 XOR (rotl64 (k1 * c1) 31 * c2)) h1
     in (h1, h2))"

definition x64_final :: "nat \<Rightarrow> u64 \<times> u64 \<Rightarrow> u64 \<times> u64" where
  "x64_final len = (\<lambda>(h1, h2).
     let h1 = h1 XOR of_nat len; h2 = h2 XOR of_nat len;
         h1 = h1 + h2;
         h2 = h2 + h1;
         h1 = fmix64 h1;
         h2 = fmix64 h2;
         h1 = h1 + h2;
         h2 = h2 + h1
     in (h1, h2))"

definition MurmurHash3_x64_128 :: "u8 list \<Rightarrow> u32 \<Rightarrow> u64 \<times> u64" where
  "MurmurHash3_x64_128 data seed =
     (let len = length data;
          nblocks = len div 16;
          h = fold (\<lambda>i. x64_body (getblock64 data (i * 2 + 0), getblock64 data (i * 2 + 1)))
                [0 ..< nblocks] (ucast seed, ucast seed);
          tail = drop (nblocks * 16) data
      in x64_final len (x64_tail tail (len mod 16) h))"

text \<open>\<open>util::murmur_hash3\<close>: the two words are stored at \<open>hash.lo\<close> and \<open>hash.hi\<close>.\<close>

definition murmur_hash3 :: "u8 list \<Rightarrow> uint128" where
  "murmur_hash3 key = (case MurmurHash3_x64_128 key (- 147483647) of (h1, h2) \<Rightarrow> U128 h1 h2)"

definition murmur_hash3_string :: "string \<Rightarrow> uint128" where
  "murmur_hash3_string value = murmur_hash3 (map char_byte value)"

text \<open>The two mixing steps of a 64-bit half, as functions.\<close>

definition mix1 :: "u64 \<Rightarrow> u64" where
  "mix1 k = rotl64 (k * 0x87c37b91114253d5) 31 * 0x4cf5ad432745937f"

definition mix2 :: "u64 \<Rightarrow> u64" where
  "mix2 k = rotl64 (k * 0x4cf5ad432745937f) 33 * 0x87c37b91114253d5"

text \<open>
  Reference reading of the hash: whole blocks of sixteen bytes are folded in, then the
  two halves of what is left, shorter words being zero-extended.
\<close>

function x64_blocks :: "u8 list \<Rightarrow> u64 \<times> u64 \<Rightarrow> u64 \<times> u64" where
  "x64_blocks bs h =
     (if length bs < 16
      then (fst h XOR mix1 (le_word (take 8 bs)), snd h XOR mix2 (le_word (drop 8 bs)))
      else x64_blocks (drop 16 bs) (x64_body (le_word (take 8 bs), le_word (take 8 (drop 8 bs))) h))"
  by pat_completeness auto
termination by (relation "measure (length \<circ> fst)") auto

section \<open>Invertible steps\<close>

declare x64_blocks.simps [simp del]

lemma rotl64_word_rotl: "r < 64 \<Longrightarrow> rotl64 z r = word_rotl r z"
proof (rule bit_word_eqI)
  fix n assume r: "r < 64" and n: "n < LENGTH(64)"
  show "bit (rotl64 z r) n \<longleftrightarrow> bit (word_rotl r z) n"
  proof (cases "r \<le> n")
    case True
    then have "(n + 64 - r) mod 64 = n - r" using n by (simp add: mod_if)
    moreover have "\<not> bit z (64 - r + n)" using True by (intro impossible_bit) simp
    ultimately show ?thesis using r n True
      by (simp add: rotl64_def bit_word_rotl_iff bit_or_iff bit_push_bit_iff bit_drop_bit_eq)
  next
    case False
    then have "(n + 64 - r) mod 64 = 64 - r + n" using r by simp
    then show ?thesis using r n False
      by (simp add: rotl64_def bit_word_rotl_iff bit_or_iff bit_push_bit_iff bit_drop_bit_eq)
  qed
qed

lemma rotl64_inject: "r < 64 \<Longrightarrow> rotl64 x r = rotl64 y r \<longleftrightarrow> x = y"
  by (metis rotl64_word_rotl word_rot_gal)

lemma xorshift_involution:
  fixes x :: "'a::len word"
  assumes "LENGTH('a) \<le> 2 * s"
  shows "(x XOR drop_bit s x) XOR drop_bit s (x XOR drop_bit s x) = x"
proof -
  have "drop_bit s (drop_bit s x) = 0"
    using assms by (simp add: drop_bit_drop_bit drop_bit_word_beyond)
  then show ?thesis by (simp add: drop_bit_xor xor.assoc)
qed

lemma xorshift_inject:
  "x XOR drop_bit 33 x = y XOR drop_bit 33 y \<longleftrightarrow> x = (y :: u64)"
proof -
  have "(z XOR drop_bit 33 z) XOR drop_bit 33 (z XOR drop_bit 33 z) = z" for z :: u64
    by (rule xorshift_involution) simp
  then show ?thesis by metis
qed

lemma mult_cancel_unit: "(u :: 'a::len word) * v = 1 \<Longrightarrow> x * u = y * u \<longleftrightarrow> x = y"
  by (metis mult.assoc mult.right_neutral)

lemma xor_cancel_left: "(a :: 'a::len word) XOR b = a XOR c \<longleftrightarrow> b = c"
  by (metis xor.assoc xor_self_eq xor.left_neutral)

lemma xor_cancel_right: "(b :: 'a::len word) XOR a = c XOR a \<longleftrightarrow> b = c"
  by (metis xor.assoc xor_self_eq xor.right_neutral)

lemma fmix64_inject: "fmix64 x = fmix64 y \<longleftrightarrow> x = y"
  by (simp only: fmix64_def Let_def xorshift_inject
      mult_cancel_unit [of "0xff51afd7ed558ccd :: u64" 5725274745694666757, simplified]
      mult_cancel_unit [of "0xc4ceb9fe1a85ec53 :: u64" 11291846944257947611, simplified])

lemma units64:
  "(0x87c37b91114253d5 :: u64) * 12214898983567248765 = 1" "(0x4cf5ad432745937f :: u64) * 12114143059468233855 = 1"
  "(5 :: u64) * 14757395258967641293 = 1"
  by simp_all

lemma mix_inject: "mix1 x = mix1 y \<longleftrightarrow> x = y" "mix2 x = mix2 y \<longleftrightarrow> x = y"
  by (simp_all add: mix1_def mix2_def rotl64_inject mult_cancel_unit [OF units64(1)] mult_cancel_unit [OF units64(2)])

lemma mix_zero [simp]: "mix1 0 = 0" "mix2 0 = 0"
  by (simp_all add: mix1_def mix2_def rotl64_def)

lemma x64_body_mix:
  "x64_body (k1, k2) (h1, h2) =
     (let h1 = (rotl64 (h1 XOR mix1 k1) 27 + h2) * 5 + 0x52dce729
      in (h1, (rotl64 (h2 XOR mix2 k2) 31 + h1) * 5 + 0x38495ab5))"
  by (simp only: x64_body_def mix1_def mix2_def Let_def prod.case)

lemma x64_body_inject: "x64_body k h = x64_body k' h \<longleftrightarrow> k = k'"
  by (cases k; cases k'; cases h)
    (auto simp: x64_body_mix Let_def mult_cancel_unit [OF units64(3)] rotl64_inject xor_cancel_left mix_inject)

lemma add_chain_inject:
  "(a + b = c + d \<and> b + (a + b) = d + (c + d)) \<longleftrightarrow> a = c \<and> b = (d :: 'a::len word)"
  by (metis add_right_cancel)

lemma x64_final_inject: "x64_final n h = x64_final n h' \<longleftrightarrow> h = h'"
  by (cases h; cases h')
    (simp only: x64_final_def Let_def prod.case prod.inject add_chain_inject fmix64_inject xor_cancel_right)

section \<open>Little-endian reads\<close>

lemma bit_le_word:
  "bit (le_word bs :: 'a::len word) n \<longleftrightarrow> n < LENGTH('a) \<and> n div 8 < length bs \<and> bit (bs ! (n div 8)) (n mod 8)"
proof (induction bs arbitrary: n)
  case Nil
  then show ?case by simp
next
  case (Cons b bs)
  show ?case
  proof (cases "n < 8")
    case True
    then show ?thesis using Cons [of "n - 8"]
      by (auto simp: bit_or_iff bit_unsigned_iff bit_push_bit_iff)
  next
    case False
    then obtain m where "n = m + 8" by (metis add.commute le_Suc_ex not_less)
    moreover have "\<not> bit b (m + 8)" by (intro impossible_bit) simp
    moreover have "(m + 8) div 8 = Suc (m div 8)" by simp
    ultimately show ?thesis using Cons [of m]
      by (auto simp: bit_or_iff bit_unsigned_iff bit_push_bit_iff)
  qed
qed

lemma le_word_inject:
  assumes "length bs = length cs" "8 * length bs \<le> LENGTH('a::len)"
    and eq: "(le_word bs :: 'a word) = le_word cs"
  shows "bs = cs"
proof (rule nth_equalityI [OF assms(1)])
  fix i assume i: "i < length bs"
  show "bs ! i = cs ! i"
  proof (rule bit_word_eqI)
    fix n assume n: "n < LENGTH(8)"
    have "8 * i + n < LENGTH('a)" using i n assms(2) by simp
    then show "bit (bs ! i) n = bit (cs ! i) n"
      using arg_cong [OF eq, of "\<lambda>w. bit w (8 * i + n)"] i n assms(1) by (simp add: bit_le_word)
  qed
qed

lemma le_word_xor: "le_word (b # bs) = (ucast b XOR push_bit 8 (le_word bs) :: 'a::len word)"
proof -
  have "ucast b AND push_bit 8 (le_word bs) = (0 :: 'a word)"
    by (rule bit_word_eqI) (auto simp: bit_and_iff bit_unsigned_iff bit_push_bit_iff dest: bit_imp_le_length)
  then show ?thesis by (metis le_word.simps(2) disjunctive_xor_eq_or)
qed

section \<open>The whole hash\<close>

text \<open>One labelled statement of the tail: the next lower byte joins the word.\<close>

lemma fall_byte:
  assumes "(1 \<le> l \<and> l \<le> n) \<longleftrightarrow> c < length bs" "c < length bs \<Longrightarrow> tail ! i = bs ! c" "s = 8 * c"
  shows "fall n l (tail_byte tail i s) (push_bit (s + 8) (le_word (drop (Suc c) bs))) =
     push_bit s (le_word (drop c bs) :: u64)"
proof (cases "c < length bs")
  case True
  then have "drop c bs = bs ! c # drop (Suc c) bs" by (rule Cons_nth_drop_Suc [symmetric])
  with True assms show ?thesis
    by (simp add: fall_def le_word_xor push_bit_xor push_bit_push_bit xor.commute add.commute del: le_word.simps(2))
next
  case False
  with assms(1) have "\<not> (1 \<le> l \<and> l \<le> n)" by blast
  with False show ?thesis unfolding fall_def by (subst if_not_P) simp_all
qed

lemma x64_tail_zero_extend:
  assumes "length tail < 16"
  shows "x64_tail tail (length tail) h =
     (fst h XOR mix1 (le_word (take 8 tail)), snd h XOR mix2 (le_word (drop 8 tail)))"
proof -
  define n p q where "n = length tail" and "p = take 8 tail" and "q = drop 8 tail"
  have l: "length p = min n 8" "length q = n - 8" by (simp_all add: n_def p_def q_def)
  have at: "i < length p \<Longrightarrow> tail ! i = p ! i" "i < length q \<Longrightarrow> tail ! (8 + i) = q ! i" for i
    by (simp_all add: p_def q_def)
  let ?P = "\<lambda>c. le_word (drop c p) :: u64" and ?Q = "\<lambda>c. le_word (drop c q) :: u64"
  have P: "fall n (Suc c) (tail_byte tail c (8 * c)) (push_bit (8 * c + 8) (?P (Suc c))) = push_bit (8 * c) (?P c)"
    if "c < 8" for c
    using that l at by (intro fall_byte) auto
  have Q: "fall n (9 + c) (tail_byte tail (8 + c) (8 * c)) (push_bit (8 * c + 8) (?Q (Suc c))) = push_bit (8 * c) (?Q c)"
    if "c < 8" for c
    using that l at by (intro fall_byte) auto
  have z: "push_bit 64 (?P 8) = 0" "push_bit 56 (?Q 7) = 0"
    using l assms by (simp_all add: n_def)
  have mix: "fall n 1 (\<lambda>h. h XOR mix1 (?P 0)) h1 = h1 XOR mix1 (?P 0)"
    "fall n 9 (\<lambda>h. h XOR mix2 (?Q 0)) h2 = h2 XOR mix2 (?Q 0)" for h1 h2
    using l by (auto simp: fall_def not_le)
  have ps: "fall n 8 (tail_byte tail 7 56) 0 = push_bit 56 (?P 7)"
    using P [of 7] z(1) by simp
  have qs: "fall n 15 (tail_byte tail 14 48) 0 = push_bit 48 (?Q 6)"
    using Q [of 6] z(2) by simp
  have p1: "fall n 2 (tail_byte tail 1 8) (push_bit 16 (?P 2)) = push_bit 8 (?P 1)"
    using P [of 1] by (simp add: numeral_2_eq_2)
  have q1: "fall n 10 (tail_byte tail 9 8) (push_bit 16 (?Q 2)) = push_bit 8 (?Q 1)"
    using Q [of 1] by (simp add: numeral_2_eq_2)
  note steps = ps P [of 6, simplified] P [of 5, simplified] P [of 4, simplified] P [of 3, simplified]
    P [of 2, simplified] p1 [simplified] P [of 0, simplified]
    qs Q [of 5, simplified] Q [of 4, simplified] Q [of 3, simplified] Q [of 2, simplified]
    q1 [simplified] Q [of 0, simplified]
  show ?thesis
    using mix unfolding x64_tail_def n_def [symmetric] p_def [symmetric] q_def [symmetric]
    by (cases h) (simp add: steps mix1_def mix2_def)
qed

lemma x64_fold_blocks:
  "x64_tail (drop (length data div 16 * 16) data) (length data mod 16)
     (fold (\<lambda>i. x64_body (getblock64 data (i * 2 + 0), getblock64 data (i * 2 + 1))) [0 ..< length data div 16] h) =
   x64_blocks data h"
proof (induction data h rule: x64_blocks.induct)
  case (1 bs h)
  show ?case
  proof (cases "length bs < 16")
    case True
    then show ?thesis by (simp add: x64_blocks.simps [of bs] x64_tail_zero_extend)
  next
    case False
    define n where "n = length (drop 16 bs) div 16"
    have n: "length bs div 16 = Suc n" using False by (simp add: n_def le_div_geq)
    have m: "length bs mod 16 = length (drop 16 bs) mod 16" using False by (simp add: le_mod_geq)
    let ?f = "\<lambda>bs i. x64_body (getblock64 bs (i * 2 + 0), getblock64 bs (i * 2 + 1))"
    have upt: "[0 ..< Suc n] = 0 # map Suc [0 ..< n]" by (subst upt_conv_Cons) (simp_all add: map_Suc_upt)
    have d: "drop (8 * (Suc i * 2 + j)) bs = drop (8 * (i * 2 + j)) (drop 16 bs)" for i j
      by (simp add: algebra_simps)
    have f: "?f bs \<circ> Suc = ?f (drop 16 bs)"
      by (rule ext) (simp only: o_apply getblock64_def d)
    have f0: "?f bs 0 = x64_body (le_word (take 8 bs), le_word (take 8 (drop 8 bs)))"
      by (simp add: getblock64_def)
    have t: "drop (Suc n * 16) bs = drop (n * 16) (drop 16 bs)" by (simp add: add.commute [of 16])
    show ?thesis using 1 [OF False] False
      unfolding n m upt fold_simps fold_map f f0 t n_def [symmetric] x64_blocks.simps [of bs] by simp
  qed
qed

section \<open>Properties\<close>

text \<open>
  C25: the index arithmetic of the block loop and the fall-through \<open>switch\<close> over the tail
  together consume the key as whole blocks of sixteen bytes followed by one
  zero-extended partial block, every byte exactly once and in order.
\<close>

theorem MurmurHash3_x64_128_blocks:
  "MurmurHash3_x64_128 data seed = x64_final (length data) (x64_blocks data (ucast seed, ucast seed))"
  by (simp only: MurmurHash3_x64_128_def Let_def x64_fold_blocks)

lemma x64_blocks_inject:
  assumes "length a = length b" "length a \<le> 16" "x64_blocks a h = x64_blocks b h"
  shows "a = b"
proof (cases "length a < 16")
  case True
  then have "le_word (take 8 a) = (le_word (take 8 b) :: u64)" "le_word (drop 8 a) = (le_word (drop 8 b) :: u64)"
    using assms by (simp_all add: x64_blocks.simps [of a] x64_blocks.simps [of b] xor_cancel_left mix_inject)
  then have "take 8 a = take 8 b" "drop 8 a = drop 8 b"
    using True assms(1) by (auto intro: le_word_inject [where 'a = 64])
  then show ?thesis by (metis append_take_drop_id)
next
  case False
  then have l: "length a = 16" "length b = 16" using assms by simp_all
  have e: "x64_blocks [] g = g" for g by (simp add: x64_blocks.simps)
  have "le_word (take 8 a) = (le_word (take 8 b) :: u64)" "le_word (drop 8 a) = (le_word (drop 8 b) :: u64)"
    using assms(3) l by (simp_all add: x64_blocks.simps [of a] x64_blocks.simps [of b] e x64_body_inject)
  then have "take 8 a = take 8 b" "drop 8 a = drop 8 b"
    using l by (auto intro: le_word_inject [where 'a = 64])
  then show ?thesis by (metis append_take_drop_id)
qed

text \<open>
  the hash that places keys on the ring has no collisions among keys of one length
  of at most sixteen bytes (in particular among binary UUIDs): every step on a single
  block is invertible.
\<close>

theorem murmur_hash3_no_short_collisions:
  assumes "length a = length b" "length a \<le> 16"
  shows "murmur_hash3 a = murmur_hash3 b \<longleftrightarrow> a = b"
proof
  assume eq: "murmur_hash3 a = murmur_hash3 b"
  have "MurmurHash3_x64_128 a (- 147483647) = MurmurHash3_x64_128 b (- 147483647)"
    using eq by (simp add: murmur_hash3_def split: prod.splits)
  then have "x64_blocks a (ucast (- 147483647 :: u32), ucast (- 147483647 :: u32)) =
      x64_blocks b (ucast (- 147483647 :: u32), ucast (- 147483647 :: u32))"
    using assms(1) unfolding MurmurHash3_x64_128_def Let_def x64_fold_blocks by (simp only: x64_final_inject)
  with assms show "a = b" by (rule x64_blocks_inject)
qed simp

theorem murmur_hash3_no_short_collisions_witness:
  "murmur_hash3 [1, 2, 3] \<noteq> murmur_hash3 [1, 2, 4]"
  using murmur_hash3_no_short_collisions [of "[1, 2, 3]" "[1, 2, 4]"] by simp

end
