(* ===== verification/Clocks.thy ===== *)
theory Clocks
  imports Sopmq_Prelude
begin

text \<open>
  \<open>node/src/node_clock.{h,cpp}\<close> and \<open>node/src/vector_clock.h\<close>: the clock of one node,
  the vector of the clocks of a replica set, their comparison operators (with the
  exceptions they throw) and the conversions from and to the network messages.
\<close>

section \<open>Definitions\<close>

text \<open>The replication factor the program instantiates its templates with.\<close>

definition RF :: nat where
  "RF = 3"

datatype comparison_error =
    different_servers
  | different_quorums
  | network_clock_too_large

record node_clock =
  node_id :: u32
  generation :: u32
  clock :: u64

text \<open>The protobuf message \<open>NodeClock\<close>; \<open>VectorClock\<close> repeats it.\<close>

record NodeClock =
  pb_node_id :: u32
  pb_generation :: u32
  pb_clock :: u64

definition to_protobuf :: "node_clock \<Rightarrow> NodeClock \<Rightarrow> NodeClock" where
  "to_protobuf c pbclock =
     pbclock \<lparr>pb_node_id := node_id c, pb_generation := generation c, pb_clock := clock c\<rparr>"

definition node_clock_eq :: "node_clock \<Rightarrow> node_clock \<Rightarrow> bool" where
  "node_clock_eq lhs rhs \<longleftrightarrow>
     node_id lhs = node_id rhs \<and> generation lhs = generation rhs \<and> clock lhs = clock rhs"

definition node_clock_lt :: "node_clock \<Rightarrow> node_clock \<Rightarrow> comparison_error + bool" where
  "node_clock_lt lhs rhs =
     (if node_id lhs \<noteq> node_id rhs then Inl different_servers
      else if generation lhs < generation rhs \<or>
              (generation lhs = generation rhs \<and> clock lhs < clock rhs)
      then Inr True
      else Inr False)"

definition node_clock_gt :: "node_clock \<Rightarrow> node_clock \<Rightarrow> comparison_error + bool" where
  "node_clock_gt lhs rhs =
     andthen (node_clock_lt lhs rhs) (\<lambda>l. Inr (\<not> l \<and> \<not> node_clock_eq lhs rhs))"

text \<open>A \<open>vector_clock<RF>\<close> is an array of \<open>RF\<close> node clocks.\<close>

type_synonym vector_clock = "node_clock list"

definition vector_clock_default :: vector_clock where
  "vector_clock_default = replicate RF \<lparr>node_id = 0, generation = 0, clock = 0\<rparr>"

text \<open>
  The constructor from the network message writes the first elements of an array that
  is otherwise left uninitialised; \<open>uninit\<close> is what the memory held.
\<close>

definition vector_clock_of_net :: "vector_clock \<Rightarrow> NodeClock list \<Rightarrow> comparison_error + vector_clock" where
  "vector_clock_of_net uninit netClock =
     (if length netClock > RF then Inl network_clock_too_large
      else
        Inr (fold (\<lambda>i v. v[i := \<lparr>node_id = pb_node_id (netClock ! i),
                                  generation = pb_generation (netClock ! i),
                                  clock = pb_clock (netClock ! i)\<rparr>])
               [0 ..< length netClock] uninit))"

definition vector_clock_set :: "vector_clock \<Rightarrow> nat \<Rightarrow> node_clock \<Rightarrow> vector_clock" where
  "vector_clock_set v pos c = v[pos := c]"

definition std_max :: "node_clock \<Rightarrow> node_clock \<Rightarrow> comparison_error + node_clock" where
  "std_max a b = andthen (node_clock_lt a b) (\<lambda>l. Inr (if l then b else a))"

fun max_loop :: "nat list \<Rightarrow> vector_clock \<Rightarrow> vector_clock \<Rightarrow> vector_clock \<Rightarrow> comparison_error + vector_clock" where
  "max_loop [] a b result = Inr result"
| "max_loop (i # is) a b result =
     andthen (std_max (a ! i) (b ! i)) (\<lambda>m. max_loop is a b (vector_clock_set result i m))"

definition vector_clock_max :: "vector_clock \<Rightarrow> vector_clock \<Rightarrow> comparison_error + vector_clock" where
  "vector_clock_max a b =
     (if list_ex (\<lambda>i. node_id (a ! i) \<noteq> node_id (b ! i)) [0 ..< RF] then Inl different_quorums
      else max_loop [0 ..< RF] a b vector_clock_default)"

definition vector_clock_eq :: "vector_clock \<Rightarrow> vector_clock \<Rightarrow> bool" where
  "vector_clock_eq lhs rhs \<longleftrightarrow> list_all2 node_clock_eq lhs rhs"

text \<open>
  \<open>operator<\<close>: every left clock meets the first right clock of its node; the counters
  \<open>numLeftLess\<close> and \<open>numRightLess\<close> are the accumulator.
\<close>

fun lt_inner :: "node_clock \<Rightarrow> vector_clock \<Rightarrow> nat \<times> nat \<Rightarrow> comparison_error + nat \<times> nat" where
  "lt_inner left [] (l, r) = Inr (l, r)"
| "lt_inner left (right # rest) (l, r) =
     (if node_id left = node_id right then
        andthen (node_clock_lt left right) (\<lambda>ll.
          if ll then Inr (l + 1, r)
          else andthen (node_clock_lt right left) (\<lambda>rl. if rl then Inr (l, r + 1) else Inr (l, r)))
      else lt_inner left rest (l, r))"

fun lt_outer :: "vector_clock \<Rightarrow> vector_clock \<Rightarrow> nat \<times> nat \<Rightarrow> comparison_error + nat \<times> nat" where
  "lt_outer [] rhs acc = Inr acc"
| "lt_outer (left # rest) rhs acc = andthen (lt_inner left rhs acc) (lt_outer rest rhs)"

definition vector_clock_lt :: "vector_clock \<Rightarrow> vector_clock \<Rightarrow> comparison_error + bool" where
  "vector_clock_lt lhs rhs =
     andthen (lt_outer lhs rhs (0, 0)) (\<lambda>(numLeftLess, numRightLess). Inr (numLeftLess > numRightLess))"

definition vector_clock_gt :: "vector_clock \<Rightarrow> vector_clock \<Rightarrow> comparison_error + bool" where
  "vector_clock_gt lhs rhs =
     andthen (vector_clock_lt lhs rhs) (\<lambda>l. Inr (\<not> l \<and> \<not> vector_clock_eq lhs rhs))"

text \<open>The comparator of the containers keyed by vector clocks.\<close>

definition vclock_less :: "vector_clock \<Rightarrow> vector_clock \<Rightarrow> bool" where
  "vclock_less a b \<longleftrightarrow> vector_clock_lt a b = Inr True"

text \<open>
  Notions of the specification: the order of clocks of one node, a clock vector with one
  entry per node, domination, and the nodes on which one vector is behind another.
\<close>

definition behind :: "node_clock \<Rightarrow> node_clock \<Rightarrow> bool" where
  "behind a b \<longleftrightarrow> generation a < generation b \<or> generation a = generation b \<and> clock a < clock b"

definition clock_valid :: "vector_clock \<Rightarrow> bool" where
  "clock_valid v \<longleftrightarrow> length v = RF \<and> distinct (map node_id v)"

definition dominated :: "vector_clock \<Rightarrow> vector_clock \<Rightarrow> bool" where
  "dominated a b \<longleftrightarrow> list_all2 (\<lambda>x y. node_id x = node_id y \<and> \<not> behind y x) a b"

definition lag :: "vector_clock \<Rightarrow> vector_clock \<Rightarrow> u32 set" where
  "lag a b = {i. \<exists>x\<in>set a. \<exists>y\<in>set b. node_id x = i \<and> node_id y = i \<and> behind x y}"

definition first_of :: "node_clock \<Rightarrow> vector_clock \<Rightarrow> node_clock option" where
  "first_of left rhs = find (\<lambda>right. node_id left = node_id right) rhs"

text \<open>Valid stamps any two of which are causally ordered.\<close>

definition clock_chain :: "vector_clock set \<Rightarrow> bool" where
  "clock_chain S \<longleftrightarrow> (\<forall>a\<in>S. clock_valid a) \<and> (\<forall>a\<in>S. \<forall>b\<in>S. dominated a b \<or> dominated b a)"

text \<open>A clock of the nodes 1, 2 and 3 in their first generation, for examples.\<close>

abbreviation sample_clock :: "u64 \<Rightarrow> u64 \<Rightarrow> u64 \<Rightarrow> vector_clock" where
  "sample_clock x y z \<equiv>
     [\<lparr>node_id = 1, generation = 0, clock = x\<rparr>, \<lparr>node_id = 2, generation = 0, clock = y\<rparr>,
      \<lparr>node_id = 3, generation = 0, clock = z\<rparr>]"

section \<open>Node clocks\<close>

lemma node_clock_eq_iff [simp]: "node_clock_eq a b \<longleftrightarrow> a = (b :: node_clock)"
  by (cases a; cases b) (auto simp: node_clock_eq_def)

lemma node_clock_lt_behind:
  "node_id a = node_id b \<Longrightarrow> node_clock_lt a b = Inr (behind a b)"
  by (simp add: node_clock_lt_def behind_def)

lemma behind_irrefl [simp]: "\<not> behind a a"
  by (simp add: behind_def)

lemma behind_asym: "behind a b \<Longrightarrow> \<not> behind b a"
  by (auto simp: behind_def)

lemma behind_trans: "behind a b \<Longrightarrow> behind b c \<Longrightarrow> behind a c"
  by (auto simp: behind_def)

lemma behind_total: "node_id a = node_id b \<Longrightarrow> behind a b \<or> behind b a \<or> a = (b :: node_clock)"
  by (cases a; cases b) (auto simp: behind_def)

section \<open>Comparison of vector clocks\<close>

lemma lt_inner_total:
  "lt_inner left rhs (l, r) =
     Inr (case first_of left rhs of
            None \<Rightarrow> (l, r)
          | Some right \<Rightarrow> (if behind left right then (l + 1, r) else if behind right left then (l, r + 1) else (l, r)))"
  by (induction rhs) (simp_all add: first_of_def node_clock_lt_behind)

lemma lt_outer_total:
  "lt_outer lhs rhs (l, r) =
     Inr (l + length (filter (\<lambda>x. \<exists>y. first_of x rhs = Some y \<and> behind x y) lhs),
          r + length (filter (\<lambda>x. \<exists>y. first_of x rhs = Some y \<and> behind y x) lhs))"
proof (induction lhs arbitrary: l r)
  case (Cons x lhs)
  show ?case
    by (cases "first_of x rhs") (auto simp: lt_inner_total Cons behind_asym)
qed simp

lemma first_of_unique:
  assumes "distinct (map node_id rhs)"
  shows "first_of x rhs = Some y \<longleftrightarrow> y \<in> set rhs \<and> node_id y = node_id x"
  using assms
proof (induction rhs)
  case (Cons z rhs)
  show ?case
  proof (cases "node_id x = node_id z")
    case True
    with Cons show ?thesis by (auto simp: first_of_def image_iff)
  next
    case False
    with Cons show ?thesis by (auto simp: first_of_def)
  qed
qed (simp add: first_of_def)

lemma lag_count:
  assumes "distinct (map node_id a)" "distinct (map node_id b)"
  shows "length (filter (\<lambda>x. \<exists>y. first_of x b = Some y \<and> behind x y) a) = card (lag a b)"
    "length (filter (\<lambda>x. \<exists>y. first_of x b = Some y \<and> behind y x) a) = card (lag b a)"
proof -
  have *: "length (filter P a) = card (node_id ` {x \<in> set a. P x})" for P
  proof -
    have "distinct (map node_id (filter P a))" using assms(1) by (simp add: distinct_map_filter)
    from distinct_card [OF this] show ?thesis by (simp add: set_filter)
  qed
  show "length (filter (\<lambda>x. \<exists>y. first_of x b = Some y \<and> behind x y) a) = card (lag a b)"
    unfolding * by (rule arg_cong [where f = card]) (auto simp: lag_def first_of_unique [OF assms(2)])
  show "length (filter (\<lambda>x. \<exists>y. first_of x b = Some y \<and> behind y x) a) = card (lag b a)"
    unfolding * by (rule arg_cong [where f = card]) (fastforce simp: lag_def first_of_unique [OF assms(2)] image_iff)
qed

lemma vector_clock_lt_total: "\<exists>b. vector_clock_lt lhs rhs = Inr b"
  by (simp add: vector_clock_lt_def lt_outer_total)

lemma vclock_less_lag:
  assumes "clock_valid a" "clock_valid b"
  shows "vclock_less a b \<longleftrightarrow> card (lag a b) > card (lag b a)"
  using assms by (simp add: vclock_less_def vector_clock_lt_def lt_outer_total lag_count clock_valid_def)

lemma finite_lag [simp]: "finite (lag a b)"
  by (rule finite_subset [of _ "node_id ` set a"]) (auto simp: lag_def)

lemma dominated_lag:
  assumes "dominated a b" "clock_valid a"
  shows "lag b a = {}"
proof -
  have len: "length a = length b" and d: "\<forall>i<length a. node_id (a ! i) = node_id (b ! i) \<and> \<not> behind (b ! i) (a ! i)"
    using assms(1) by (auto simp: dominated_def list_all2_conv_all_nth)
  have "i = j" if "i < length a" "j < length a" "node_id (a ! i) = node_id (a ! j)" for i j
    using that assms(2) nth_eq_iff_index_eq [of "map node_id a" i j] by (simp add: clock_valid_def)
  then show ?thesis using d len by (fastforce simp: lag_def in_set_conv_nth)
qed

lemma dominated_strict:
  assumes "dominated a b" "a \<noteq> b"
  shows "lag a b \<noteq> {}"
proof -
  have len: "length a = length b" and d: "\<forall>i<length a. node_id (a ! i) = node_id (b ! i) \<and> \<not> behind (b ! i) (a ! i)"
    using assms(1) by (auto simp: dominated_def list_all2_conv_all_nth)
  then obtain i where i: "i < length a" "a ! i \<noteq> b ! i" using assms(2) nth_equalityI by blast
  then have "behind (a ! i) (b ! i)" using behind_total d by blast
  then show ?thesis using i d len by (fastforce simp: lag_def)
qed

lemma dominated_less:
  assumes "clock_valid a" "clock_valid b" "dominated a b" "a \<noteq> b"
  shows "vclock_less a b" "\<not> vclock_less b a"
  using dominated_lag [OF assms(3,1)] dominated_strict [OF assms(3,4)]
  by (simp_all add: vclock_less_lag assms(1,2) card_gt_0_iff)

lemma dominated_refl: "dominated a a"
  by (simp add: dominated_def list_all2_conv_all_nth)

lemma vclock_less_irrefl: "clock_valid a \<Longrightarrow> \<not> vclock_less a a"
  by (simp add: vclock_less_lag)

lemma vclock_less_asym: "clock_valid a \<Longrightarrow> clock_valid b \<Longrightarrow> vclock_less a b \<Longrightarrow> \<not> vclock_less b a"
  by (simp add: vclock_less_lag)

lemma not_behind_trans: "\<not> behind y x \<Longrightarrow> \<not> behind z y \<Longrightarrow> \<not> behind z x"
  by (auto simp: behind_def)

lemma dominated_trans: "dominated a b \<Longrightarrow> dominated b c \<Longrightarrow> dominated a c"
  unfolding dominated_def list_all2_conv_all_nth using not_behind_trans by fastforce

text \<open>On a chain of the domination order the comparator meets the contract of the containers.\<close>

lemma chain_less_iff:
  assumes "clock_chain S" "a \<in> S" "b \<in> S"
  shows "vclock_less a b \<longleftrightarrow> dominated a b \<and> a \<noteq> b"
  using assms dominated_less vclock_less_irrefl unfolding clock_chain_def by blast

lemma chain_antisym:
  assumes "clock_chain S" "a \<in> S" "b \<in> S" "dominated a b" "dominated b a"
  shows "a = b"
  using assms dominated_less(1,2) unfolding clock_chain_def by blast

lemma chain_strict_weak_order:
  assumes "clock_chain S"
  shows "strict_weak_order S vclock_less"
proof
  show "x \<in> S \<Longrightarrow> \<not> vclock_less x x" for x
    using chain_less_iff [OF assms] by blast
  show "vclock_less x z" if "x \<in> S" "y \<in> S" "z \<in> S" "vclock_less x y" "vclock_less y z" for x y z
    using that chain_less_iff [OF assms] dominated_trans chain_antisym [OF assms] by metis
  show "vclock_less x y \<or> vclock_less y z" if "x \<in> S" "y \<in> S" "z \<in> S" "vclock_less x z" for x y z
    using that chain_less_iff [OF assms] assms dominated_trans chain_antisym [OF assms]
    unfolding clock_chain_def by metis
qed

section \<open>Maximum and network form\<close>

lemma max_loop_Inr:
  assumes "\<forall>i\<in>set is. node_id (a ! i) = node_id (b ! i)"
  shows "max_loop is a b result =
     Inr (fold (\<lambda>i v. v[i := (if behind (a ! i) (b ! i) then b ! i else a ! i)]) is result)"
  using assms by (induction "is" arbitrary: result) (simp_all add: std_max_def node_clock_lt_behind vector_clock_set_def)

lemma fold_update:
  "length v = n \<Longrightarrow> k \<le> n \<Longrightarrow> fold (\<lambda>i v. v[i := f i]) [0 ..< k] v = map f [0 ..< k] @ drop k v"
proof (induction k)
  case (Suc k)
  then show ?case
    by (simp add: list_update_append flip: Cons_nth_drop_Suc)
qed simp

lemma vector_clock_max_eq:
  assumes "length a = RF" "length b = RF" "map node_id a = map node_id b"
  shows "vector_clock_max a b = Inr (map2 (\<lambda>x y. if behind x y then y else x) a b)"
proof -
  have ids: "\<forall>i\<in>set [0 ..< RF]. node_id (a ! i) = node_id (b ! i)"
    using assms by (metis atLeastLessThan_iff nth_map set_upt)
  then have "vector_clock_max a b = Inr (map (\<lambda>i. if behind (a ! i) (b ! i) then b ! i else a ! i) [0 ..< RF])"
    by (auto simp: vector_clock_max_def max_loop_Inr fold_update [of _ RF] vector_clock_default_def list_ex_iff)
  also have "map (\<lambda>i. if behind (a ! i) (b ! i) then b ! i else a ! i) [0 ..< RF] =
      map2 (\<lambda>x y. if behind x y then y else x) a b"
    using assms by (intro nth_equalityI) simp_all
  finally show ?thesis .
qed

lemma of_net_to_protobuf:
  assumes "length v = RF" "length uninit = RF"
  shows "vector_clock_of_net uninit (map (\<lambda>c. to_protobuf c pb) v) = Inr v"
proof -
  let ?f = "\<lambda>i. \<lparr>node_id = pb_node_id (map (\<lambda>c. to_protobuf c pb) v ! i),
     generation = pb_generation (map (\<lambda>c. to_protobuf c pb) v ! i),
     clock = pb_clock (map (\<lambda>c. to_protobuf c pb) v ! i)\<rparr>"
  have "map ?f [0 ..< length v] = v"
    by (rule nth_equalityI) (simp_all add: to_protobuf_def)
  then show ?thesis using assms fold_update [of uninit RF RF ?f]
    by (simp add: vector_clock_of_net_def)
qed

lemma vector_clock_max_is_lub:
  assumes "length a = RF" "length b = RF" "map node_id a = map node_id b"
  shows "\<exists>m. vector_clock_max a b = Inr m \<and> dominated a m \<and> dominated b m \<and>
     (\<forall>u. dominated a u \<and> dominated b u \<longrightarrow> dominated m u)"
proof (intro exI conjI allI impI)
  let ?m = "map2 (\<lambda>x y. if behind x y then y else x) a b"
  have ids: "node_id (a ! i) = node_id (b ! i)" if "i < RF" for i
    using assms that by (metis nth_map)
  show "vector_clock_max a b = Inr ?m" using assms by (rule vector_clock_max_eq)
  show "dominated a ?m" "dominated b ?m"
    using assms(1,2) ids by (auto simp: dominated_def list_all2_conv_all_nth behind_asym)
  show "dominated ?m u" if "dominated a u \<and> dominated b u" for u
    using that assms(1,2) ids by (auto simp: dominated_def list_all2_conv_all_nth)
qed

section \<open>Properties\<close>

text \<open>
  Comparing the clocks of two replica sets never throws, whatever nodes they name,
  and for clocks with one entry per node it is asymmetric: two replicas never both order
  a pair of stamps against each other.
\<close>

lemma vector_clock_lt_asym:
  assumes "clock_valid a" "clock_valid b"
  shows "\<exists>l r. vector_clock_lt a b = Inr l \<and> vector_clock_lt b a = Inr r \<and> \<not> (l \<and> r)"
  using vector_clock_lt_total [of a b] vector_clock_lt_total [of b a] vclock_less_asym [OF assms]
  by (auto simp: vclock_less_def)

text \<open>
  C19: a stamp that is dominated component by component (it happened before) is the
  smaller key: \<open>operator<\<close> extends the causal order of vector clocks.
\<close>

theorem vector_clock_lt_causal:
  assumes "clock_valid a" "clock_valid b" "dominated a b" "a \<noteq> b"
  shows "vector_clock_lt a b = Inr True \<and> vector_clock_lt b a = Inr False"
  using dominated_less [OF assms] vector_clock_lt_total [of b a] by (auto simp: vclock_less_def)

text \<open>
  C18: \<open>max\<close> of two clocks of the same replica set returns their least upper bound in the
  causal order.
\<close>

theorem vector_clock_max_lub:
  assumes "length a = RF" "length b = RF" "map node_id a = map node_id b"
  shows "\<exists>m. vector_clock_max a b = Inr m \<and> dominated a m \<and> dominated b m \<and>
     (\<forall>u. dominated a u \<and> dominated b u \<longrightarrow> dominated m u)"
  using assms by (rule vector_clock_max_is_lub)

theorem vector_clock_lt_causal_witness:
  "vector_clock_lt (sample_clock 1 2 3) (sample_clock 1 4 3) = Inr True \<and>
   vector_clock_lt (sample_clock 1 4 3) (sample_clock 1 2 3) = Inr False"
  by (rule vector_clock_lt_causal) (simp_all add: clock_valid_def RF_def dominated_def behind_def)

theorem vector_clock_max_lub_witness:
  "\<exists>m. vector_clock_max (sample_clock 1 2 3) (sample_clock 2 1 3) = Inr m \<and>
     dominated (sample_clock 1 2 3) m \<and> dominated (sample_clock 2 1 3) m \<and>
     (\<forall>u. dominated (sample_clock 1 2 3) u \<and> dominated (sample_clock 2 1 3) u \<longrightarrow> dominated m u)"
  by (rule vector_clock_max_lub) (simp_all add: RF_def)

text \<open>
  \<open>operator<\<close> is not transitive on concurrent clocks.  The three valid stamps below
  are ordered in a circle, so the comparator of the message multimap is not a strict weak
  order unless the stamps form a causal chain.
\<close>

theorem vector_clock_lt_cycle:
  "\<exists>a b c. clock_valid a \<and> clock_valid b \<and> clock_valid c \<and>
     vector_clock_lt a b = Inr True \<and> vector_clock_lt b c = Inr True \<and> vector_clock_lt c a = Inr True"
  by (intro exI [of _ "sample_clock 1 2 3"] exI [of _ "sample_clock 2 3 1"] exI [of _ "sample_clock 3 1 2"])
    (simp add: clock_valid_def RF_def vector_clock_lt_def node_clock_lt_def)

text \<open>
  A clock sent as a \<open>VectorClock\<close> message is rebuilt exactly, whatever the array held
  before; a message with more than \<open>RF\<close> entries is refused.
\<close>

theorem vector_clock_network_round_trip:
  assumes "length v = RF" "length uninit = RF"
  shows "vector_clock_of_net uninit (map (\<lambda>c. to_protobuf c pb) v) = Inr v \<and>
     vector_clock_of_net uninit (map (\<lambda>c. to_protobuf c pb) (v @ [c])) = Inl network_clock_too_large"
  using of_net_to_protobuf [OF assms] assms by (simp add: vector_clock_of_net_def)

theorem vector_clock_network_round_trip_witness:
  "vector_clock_of_net vector_clock_default
     (map (\<lambda>c. to_protobuf c \<lparr>pb_node_id = 0, pb_generation = 0, pb_clock = 0\<rparr>) (sample_clock 1 2 3)) =
     Inr (sample_clock 1 2 3)"
  using vector_clock_network_round_trip [of "sample_clock 1 2 3" vector_clock_default]
  by (simp add: RF_def vector_clock_default_def)

end
