(* ===== verification/Message_Queue.thy ===== *)
theory Message_Queue
  imports Clocks Uint128
begin

text \<open>
  \<open>node/src/queued_message.h\<close> and \<open>node/src/message_queue.h\<close>: the in-memory queue of one
  queue name.  A message waits in \<open>_unstamped_messages\<close> until its vector clock arrives and
  then moves to the multimap \<open>_queued_messages\<close>, ordered by clock; \<open>_message_index\<close> holds
  an iterator per message id.  Every operation runs under the lock of the queue and is
  one function here; the current time of \<open>steady_clock\<close> is an argument.

  The members \<open>peek\<close> and \<open>claim\<close> are never instantiated; \<open>claim\<close> is given the reading
  its comment states (the iterator found in the index is erased from the multimap).
  \<open>next_expiry\<close>, which has no return statement, is left out.
\<close>

section \<open>Messages\<close>

record queued_message =
  qm_id :: uuid
  qm_data :: string
  qm_local_time :: time_point
  qm_vclock :: vector_clock

definition queued_message_new :: "time_point \<Rightarrow> uuid \<Rightarrow> string \<Rightarrow> queued_message" where
  "queued_message_new now i data =
     \<lparr>qm_id = i, qm_data = data, qm_local_time = now, qm_vclock = vector_clock_default\<rparr>"

definition set_vclock :: "vector_clock \<Rightarrow> queued_message \<Rightarrow> queued_message" where
  "set_vclock mclock m = m\<lparr>qm_vclock := mclock\<rparr>"

definition age :: "time_point \<Rightarrow> queued_message \<Rightarrow> int" where
  "age now m = now - qm_local_time m"

definition update_local_timestamp :: "time_point \<Rightarrow> queued_message \<Rightarrow> queued_message" where
  "update_local_timestamp now m = m\<lparr>qm_local_time := now\<rparr>"

text \<open>A uuid takes 16 bytes, a time point 8, a node clock 16.\<close>

definition calc_size :: "nat \<Rightarrow> u32" where
  "calc_size dataSize = of_nat (16 + 8 + RF * 16 + dataSize)"

definition message_size :: "queued_message \<Rightarrow> u32" where
  "message_size m = calc_size (length (qm_data m))"

section \<open>The queue\<close>

text \<open>
  The elements of the multimap carry the identity of their node, so that an iterator is
  a number; \<open>next_handle\<close> is the number of the next node to be allocated.
\<close>

record message_queue =
  queue_id :: uint128
  created_on :: time_point
  total_message_size :: u32
  ttl_set :: bool
  ttl :: u32
  last_message_received :: time_point
  unstamped_messages :: "(uuid \<times> queued_message) list"
  queued_messages :: "(vector_clock \<times> nat \<times> queued_message) list"
  message_index :: "uuid \<Rightarrow> nat option"
  next_handle :: nat

definition message_queue_new :: "time_point \<Rightarrow> uint128 \<Rightarrow> message_queue" where
  "message_queue_new now queueId =
     \<lparr>queue_id = queueId, created_on = now, total_message_size = 0, ttl_set = False, ttl = 0,
      last_message_received = 0, unstamped_messages = [], queued_messages = [],
      message_index = Map.empty, next_handle = 0\<rparr>"

text \<open>The move constructor and the move assignment take over every member.\<close>

definition message_queue_move :: "message_queue \<Rightarrow> message_queue" where
  "message_queue_move other =
     \<lparr>queue_id = queue_id other, created_on = created_on other,
      total_message_size = total_message_size other, ttl_set = ttl_set other, ttl = ttl other,
      last_message_received = last_message_received other,
      unstamped_messages = unstamped_messages other, queued_messages = queued_messages other,
      message_index = message_index other, next_handle = next_handle other\<rparr>"

definition enqueue :: "time_point \<Rightarrow> uuid \<Rightarrow> string \<Rightarrow> u32 \<Rightarrow> message_queue \<Rightarrow> message_queue" where
  "enqueue now i data ttlSecs q =
     (let q = (if \<not> ttl_set q then q\<lparr>ttl_set := True, ttl := ttlSecs\<rparr> else q)
      in q\<lparr>total_message_size := total_message_size q + calc_size (length data),
           unstamped_messages := umap_insert i (queued_message_new now i data) (unstamped_messages q)\<rparr>)"

definition stamp :: "time_point \<Rightarrow> uuid \<Rightarrow> vector_clock \<Rightarrow> message_queue \<Rightarrow> bool \<times> message_queue" where
  "stamp now i vclock q =
     (case map_of (unstamped_messages q) i of
        Some m \<Rightarrow>
          (let message = update_local_timestamp now m;
               pos = next_handle q;
               value = (vclock, pos, message);
               queued =
                 (if length (queued_messages q) > 0
                  then multimap_insert_end vclock_less value (queued_messages q)
                  else multimap_insert vclock_less value (queued_messages q));
               index =
                 (if message_index q i = None then (message_index q)(i \<mapsto> pos) else message_index q)
           in (True, q\<lparr>queued_messages := queued, message_index := index,
                       unstamped_messages := umap_erase i (unstamped_messages q),
                       next_handle := pos + 1\<rparr>))
      | None \<Rightarrow> (False, q))"

fun expire_queued ::
  "time_point \<Rightarrow> int \<Rightarrow> u32 \<Rightarrow> (vector_clock \<times> nat \<times> queued_message) list
     \<Rightarrow> u32 \<times> (vector_clock \<times> nat \<times> queued_message) list" where
  "expire_queued now ttlSecs bytes [] = (bytes, [])"
| "expire_queued now ttlSecs bytes ((v, h, m) # rest) =
     (if age now m > ttlSecs
      then expire_queued now ttlSecs (bytes - calc_size (length (qm_data m))) rest
      else (bytes, (v, h, m) # rest))"

fun expire_unstamped ::
  "time_point \<Rightarrow> int \<Rightarrow> u32 \<Rightarrow> (uuid \<times> queued_message) list \<Rightarrow> u32 \<times> (uuid \<times> queued_message) list" where
  "expire_unstamped now ttlSecs bytes [] = (bytes, [])"
| "expire_unstamped now ttlSecs bytes ((i, m) # rest) =
     (if age now m > ttlSecs
      then expire_unstamped now ttlSecs (bytes - calc_size (length (qm_data m))) rest
      else (case expire_unstamped now ttlSecs bytes rest of (t, es) \<Rightarrow> (t, (i, m) # es)))"

definition expire_messages :: "time_point \<Rightarrow> message_queue \<Rightarrow> message_queue" where
  "expire_messages now q =
     (let ttlSecs = seconds (ttl q);
          (bytes, queued) = expire_queued now ttlSecs (total_message_size q) (queued_messages q);
          (bytes, unstamped) = expire_unstamped now ttlSecs bytes (unstamped_messages q)
      in q\<lparr>total_message_size := bytes, queued_messages := queued, unstamped_messages := unstamped\<rparr>)"

definition memory_size :: "message_queue \<Rightarrow> u32" where
  "memory_size q = total_message_size q"

definition total_count :: "message_queue \<Rightarrow> nat" where
  "total_count q = length (unstamped_messages q) + length (queued_messages q)"

text \<open>\<open>find\<close> on the multimap: the lower bound of the key, if it is equivalent to the key.\<close>

definition peek :: "vector_clock \<Rightarrow> message_queue \<Rightarrow> queued_message list" where
  "peek lastMessage q =
     (case dropWhile (\<lambda>e. vclock_less (fst e) lastMessage) (queued_messages q) of
        [] \<Rightarrow> []
      | e # es \<Rightarrow> if vclock_less lastMessage (fst e) then [] else map (snd \<circ> snd) (e # es))"

definition peekAll :: "message_queue \<Rightarrow> queued_message list" where
  "peekAll q = map (snd \<circ> snd) (queued_messages q)"

text \<open>
  \<open>claim\<close> dereferences the iterator found in the index; \<open>None\<close> is the undefined behaviour
  of an iterator whose element has been erased.
\<close>

definition claim :: "uuid \<Rightarrow> message_queue \<Rightarrow> message_queue option" where
  "claim messageId q =
     (case message_index q messageId of
        None \<Rightarrow> Some q
      | Some h \<Rightarrow>
          (case find (\<lambda>e. fst (snd e) = h) (queued_messages q) of
             None \<Rightarrow> None
           | Some (_, _, m) \<Rightarrow>
               Some (q\<lparr>total_message_size := total_message_size q - calc_size (length (qm_data m)),
                       queued_messages := filter (\<lambda>e. fst (snd e) \<noteq> h) (queued_messages q),
                       message_index := (message_index q)(messageId := None)\<rparr>)))"

section \<open>Invariant and reachable queues\<close>

definition queue_content :: "message_queue \<Rightarrow> queued_message list" where
  "queue_content q = map snd (unstamped_messages q) @ peekAll q"

definition queue_inv :: "message_queue \<Rightarrow> bool" where
  "queue_inv q \<longleftrightarrow>
     distinct (map fst (unstamped_messages q)) \<and>
     list_all (\<lambda>(i, m). qm_id m = i \<and> message_index q i = None) (unstamped_messages q) \<and>
     distinct (map (fst \<circ> snd) (queued_messages q)) \<and>
     list_all (\<lambda>(v, h, m). message_index q (qm_id m) = Some h) (queued_messages q) \<and>
     (\<forall>i h. message_index q i = Some h \<longrightarrow> h < next_handle q) \<and>
     total_message_size q = sum_list (map message_size (queue_content q))"

text \<open>
  The operations as a transition system.  Message ids are drawn fresh by the publishers;
  \<open>S\<close> is the set of the clocks that stamp messages.
\<close>

definition id_fresh :: "uuid \<Rightarrow> message_queue \<Rightarrow> bool" where
  "id_fresh i q \<longleftrightarrow> map_of (unstamped_messages q) i = None \<and> message_index q i = None"

inductive queue_step :: "vector_clock set \<Rightarrow> message_queue \<Rightarrow> message_queue \<Rightarrow> bool" for S where
  step_enqueue: "id_fresh i q \<Longrightarrow> queue_step S q (enqueue now i data ttlSecs q)"
| step_stamp: "vclock \<in> S \<Longrightarrow> queue_step S q (snd (stamp now i vclock q))"
| step_expire: "queue_step S q (expire_messages now q)"
| step_claim: "claim i q = Some q' \<Longrightarrow> queue_step S q q'"

inductive queue_reach :: "vector_clock set \<Rightarrow> message_queue \<Rightarrow> bool" for S where
  reach_new: "queue_reach S (message_queue_new now queueId)"
| reach_step: "queue_reach S q \<Longrightarrow> queue_step S q q' \<Longrightarrow> queue_reach S q'"

text \<open>A short history: two messages, the second stamped first.\<close>

definition history_queue :: message_queue where
  "history_queue =
     snd (stamp 9000000000 [1] (sample_clock 1 1 1)
       (snd (stamp 0 [2] (sample_clock 2 2 2)
         (enqueue 0 [2] ''b'' 5 (enqueue 0 [1] ''a'' 5 (message_queue_new 0 (U128 7 0)))))))"

section \<open>Library facts of the queue\<close>

lemma map_of_None_fst: "map_of xs k = None \<longleftrightarrow> k \<notin> fst ` set xs"
  by (simp add: map_of_eq_None_iff)

lemma queue_fields [queue_simps]:
  "unstamped_messages (enqueue now i data t q) =
     umap_insert i (queued_message_new now i data) (unstamped_messages q)"
  "queued_messages (enqueue now i data t q) = queued_messages q"
  "message_index (enqueue now i data t q) = message_index q"
  "next_handle (enqueue now i data t q) = next_handle q"
  "total_message_size (enqueue now i data t q) = total_message_size q + calc_size (length data)"
  "queue_id (enqueue now i data t q) = queue_id q"
  by (simp_all add: enqueue_def Let_def)

lemma expire_queued_eq:
  "expire_queued now d n xs =
     (n - sum_list (map (message_size \<circ> snd \<circ> snd) (takeWhile (\<lambda>e. age now (snd (snd e)) > d) xs)),
      dropWhile (\<lambda>e. age now (snd (snd e)) > d) xs)"
  by (induction now d n xs rule: expire_queued.induct) (simp_all add: message_size_def algebra_simps)

lemma expire_unstamped_eq:
  "expire_unstamped now d n xs =
     (n - sum_list (map (message_size \<circ> snd) (filter (\<lambda>e. age now (snd e) > d) xs)),
      filter (\<lambda>e. \<not> age now (snd e) > d) xs)"
  by (induction now d n xs rule: expire_unstamped.induct)
    (simp_all add: message_size_def algebra_simps split: prod.splits)

lemma sum_list_partition:
  fixes f :: "'a \<Rightarrow> 'b::comm_monoid_add"
  shows "sum_list (map f (filter P xs)) + sum_list (map f (filter (\<lambda>x. \<not> P x) xs)) = sum_list (map f xs)"
  by (induction xs) (simp_all add: ac_simps)

lemma sum_list_take_dropWhile:
  fixes f :: "'a \<Rightarrow> 'b::comm_monoid_add"
  shows "sum_list (map f (takeWhile P xs)) + sum_list (map f (dropWhile P xs)) = sum_list (map f xs)"
  by (metis map_append sum_list_append takeWhile_dropWhile_id)

lemma queue_content_size:
  "sum_list (map message_size (queue_content q)) =
     sum_list (map (message_size \<circ> snd) (unstamped_messages q)) +
     sum_list (map (message_size \<circ> snd \<circ> snd) (queued_messages q))"
  by (simp add: queue_content_def peekAll_def comp_assoc)

lemma expire_fields [queue_simps]:
  "queued_messages (expire_messages now q) =
     dropWhile (\<lambda>e. age now (snd (snd e)) > seconds (ttl q)) (queued_messages q)"
  "unstamped_messages (expire_messages now q) =
     filter (\<lambda>e. \<not> age now (snd e) > seconds (ttl q)) (unstamped_messages q)"
  "message_index (expire_messages now q) = message_index q"
  "next_handle (expire_messages now q) = next_handle q"
  "queue_id (expire_messages now q) = queue_id q"
  "total_message_size (expire_messages now q) =
     total_message_size q
     - sum_list (map (message_size \<circ> snd \<circ> snd)
         (takeWhile (\<lambda>e. age now (snd (snd e)) > seconds (ttl q)) (queued_messages q)))
     - sum_list (map (message_size \<circ> snd)
         (filter (\<lambda>e. age now (snd e) > seconds (ttl q)) (unstamped_messages q)))"
  by (simp_all add: expire_messages_def expire_queued_eq expire_unstamped_eq Let_def)

lemma expire_size:
  "total_message_size (expire_messages now q) - sum_list (map message_size (queue_content (expire_messages now q)))
   = total_message_size q - sum_list (map message_size (queue_content q))"
  unfolding queue_content_size queue_simps
    sum_list_partition [of "message_size \<circ> snd" "\<lambda>e. age now (snd e) > seconds (ttl q)" "unstamped_messages q", symmetric]
    sum_list_take_dropWhile [of "message_size \<circ> snd \<circ> snd" "\<lambda>e. age now (snd (snd e)) > seconds (ttl q)"
        "queued_messages q", symmetric]
  by (simp only: algebra_simps)

lemma multimap_insert_end_Nil: "multimap_insert lt e [] = multimap_insert_end lt e []"
  by (simp add: multimap_insert_end_def)

lemma stamp_Some:
  assumes "map_of (unstamped_messages q) i = Some m"
  shows "stamp now i v q =
     (True, q\<lparr>queued_messages := multimap_insert_end vclock_less (v, next_handle q, update_local_timestamp now m) (queued_messages q),
       message_index := (if message_index q i = None then (message_index q)(i \<mapsto> next_handle q) else message_index q),
       unstamped_messages := umap_erase i (unstamped_messages q), next_handle := next_handle q + 1\<rparr>)"
  using assms by (simp add: stamp_def Let_def multimap_insert_end_Nil)

lemma stamp_None:
  "map_of (unstamped_messages q) i = None \<Longrightarrow> stamp now i v q = (False, q)"
  by (simp add: stamp_def)

lemma umap_erase_sum:
  fixes f :: "'k \<times> 'v \<Rightarrow> 'b::comm_monoid_add"
  assumes "distinct (map fst xs)" "map_of xs k = Some v"
  shows "f (k, v) + sum_list (map f (umap_erase k xs)) = sum_list (map f xs)"
  using assms
proof (induction xs)
  case (Cons x xs)
  show ?case
  proof (cases "fst x = k")
    case True
    then have "filter (\<lambda>e. fst e \<noteq> k) xs = xs" using Cons.prems(1) by (auto simp: filter_id_conv image_iff)
    then show ?thesis using True Cons.prems(2) by (cases x) (simp add: umap_erase_def)
  next
    case False
    then show ?thesis using Cons by (cases x) (simp add: umap_erase_def add.left_commute)
  qed
qed simp

lemma message_size_update [simp]: "message_size (update_local_timestamp now m) = message_size m"
  by (simp add: message_size_def update_local_timestamp_def)

section \<open>The invariant\<close>

lemma new_inv: "queue_inv (message_queue_new now queueId)"
  by (simp add: queue_inv_def message_queue_new_def queue_content_def peekAll_def)

lemma enqueue_inv:
  assumes "queue_inv q" "id_fresh i q"
  shows "queue_inv (enqueue now i data t q)"
proof -
  have new: "unstamped_messages (enqueue now i data t q) =
      unstamped_messages q @ [(i, queued_message_new now i data)]"
    using assms(2) by (simp add: queue_simps id_fresh_def umap_insert_new)
  have "sum_list (map message_size (queue_content (enqueue now i data t q))) =
      sum_list (map message_size (queue_content q)) + calc_size (length data)"
    by (simp add: queue_content_size new) (simp add: queue_simps queued_message_new_def message_size_def)
  then show ?thesis using assms
    unfolding queue_inv_def new
    by (simp add: queue_simps id_fresh_def map_of_None_fst queued_message_new_def)
qed

lemma stamp_inv:
  assumes "queue_inv q"
  shows "queue_inv (snd (stamp now i v q))"
proof (cases "map_of (unstamped_messages q) i")
  case None
  then show ?thesis using assms by (simp add: stamp_None)
next
  case (Some m)
  let ?q = "snd (stamp now i v q)" and ?m = "update_local_timestamp now m"
  obtain ys zs where ins: "queued_messages q = ys @ zs"
    "multimap_insert_end vclock_less (v, next_handle q, ?m) (queued_messages q) = ys @ (v, next_handle q, ?m) # zs"
    using multimap_insert_end_split by blast
  have im: "(i, m) \<in> set (unstamped_messages q)" using Some by (rule map_of_SomeD)
  with assms have m: "qm_id m = i" "message_index q i = None"
    by (auto simp: queue_inv_def list_all_iff)
  have old: "h < next_handle q \<and> qm_id n \<noteq> i" if "(w, h, n) \<in> set (queued_messages q)" for w h n
    using assms m(2) that by (auto simp: queue_inv_def list_all_iff)
  have "distinct (map fst (unstamped_messages q))" using assms by (simp add: queue_inv_def)
  note erase = umap_erase_sum [OF this Some, of "message_size \<circ> snd"]
  have size: "sum_list (map message_size (queue_content ?q)) = sum_list (map message_size (queue_content q))"
    unfolding queue_content_size erase [symmetric]
    by (simp add: stamp_Some [OF Some] sum_list_multimap_insert_end algebra_simps)
  have fresh: "next_handle q \<notin> (fst \<circ> snd) ` set (queued_messages q)" using old by fastforce
  have qd: "queued_messages ?q = ys @ (v, next_handle q, ?m) # zs"
    and mi: "message_index ?q = (message_index q)(i \<mapsto> next_handle q)"
    using m(2) by (simp_all add: stamp_Some [OF Some] ins(2))
  have "distinct (map fst (umap_erase i (unstamped_messages q)))"
    using assms by (simp add: queue_inv_def umap_erase_def distinct_map_filter)
  moreover have "list_all (\<lambda>(j, m). qm_id m = j \<and> message_index ?q j = None) (umap_erase i (unstamped_messages q))"
    using assms by (auto simp: stamp_Some [OF Some] queue_inv_def list_all_iff umap_erase_def)
  moreover have "distinct (map (fst \<circ> snd) (queued_messages ?q))"
    using assms fresh unfolding qd queue_inv_def ins(1) by auto
  moreover have "list_all (\<lambda>(v, h, m). message_index ?q (qm_id m) = Some h) (queued_messages ?q)"
    using assms old m unfolding qd mi queue_inv_def ins(1)
    by (fastforce simp: list_all_iff update_local_timestamp_def)
  moreover have "\<forall>j h. message_index ?q j = Some h \<longrightarrow> h < next_handle ?q"
    using assms by (auto simp: stamp_Some [OF Some] queue_inv_def less_Suc_eq)
  ultimately show ?thesis using assms size by (simp add: queue_inv_def stamp_Some [OF Some])
qed

lemma expire_inv:
  assumes "queue_inv q"
  shows "queue_inv (expire_messages now q)"
proof -
  have sub: "set (dropWhile P xs) \<subseteq> set xs" for P and xs :: "'a list" by (auto dest: set_dropWhileD)
  have "distinct (map (fst \<circ> snd) (queued_messages (expire_messages now q)))"
    using assms by (simp add: queue_simps queue_inv_def dropWhile_eq_drop distinct_drop flip: drop_map)
  then show ?thesis using assms expire_size [of now q]
    by (auto simp: queue_inv_def queue_simps distinct_map_filter list_all_iff dest: set_dropWhileD)
qed

lemma find_unique:
  fixes f :: "'a \<Rightarrow> 'b::comm_monoid_add"
  assumes "distinct (map g xs)" "find (\<lambda>e. g e = h) xs = Some e"
  shows "g e = h \<and> e \<in> set xs \<and> f e + sum_list (map f (filter (\<lambda>e. g e \<noteq> h) xs)) = sum_list (map f xs)"
  using assms
proof (induction xs)
  case (Cons x xs)
  show ?case
  proof (cases "g x = h")
    case True
    then have "filter (\<lambda>e. g e \<noteq> h) xs = xs" using Cons.prems(1) by (auto simp: filter_id_conv image_iff)
    then show ?thesis using True Cons.prems(2) by simp
  next
    case False
    then show ?thesis using Cons by (auto simp: add.left_commute [of "f e" "f x"])
  qed
qed simp

lemma claim_inv:
  assumes "queue_inv q" "claim i q = Some q'"
  shows "queue_inv q'"
proof (cases "message_index q i")
  case None
  then show ?thesis using assms by (simp add: claim_def)
next
  case (Some h)
  with assms(2) obtain v h' m where f: "find (\<lambda>e. fst (snd e) = h) (queued_messages q) = Some (v, h', m)"
    and q': "q' = q\<lparr>total_message_size := total_message_size q - calc_size (length (qm_data m)),
       queued_messages := filter (\<lambda>e. fst (snd e) \<noteq> h) (queued_messages q),
       message_index := (message_index q)(i := None)\<rparr>"
    by (auto simp: claim_def split: option.splits)
  have d: "distinct (map (\<lambda>e. fst (snd e)) (queued_messages q))"
    using assms(1) by (simp add: queue_inv_def comp_def)
  note fu = find_unique [OF d f, of "message_size \<circ> snd \<circ> snd"]
  have "sum_list (map message_size (queue_content q')) = total_message_size q'"
    using assms(1) fu unfolding queue_inv_def queue_content_size q'
    by (simp add: message_size_def [of m] algebra_simps)
  moreover have "list_all (\<lambda>(v, h, m). message_index q' (qm_id m) = Some h) (queued_messages q')"
    using assms(1) Some by (fastforce simp: q' queue_inv_def list_all_iff)
  ultimately show ?thesis using assms(1) unfolding queue_inv_def q'
    by (auto simp: distinct_map_filter list_all_iff)
qed

lemma step_inv: "queue_step S q q' \<Longrightarrow> queue_inv q \<Longrightarrow> queue_inv q'"
  by (induction rule: queue_step.induct) (simp_all add: enqueue_inv stamp_inv expire_inv claim_inv)

lemma reach_inv: "queue_reach S q \<Longrightarrow> queue_inv q"
  by (induction rule: queue_reach.induct) (simp_all add: new_inv step_inv)


section \<open>Order of the queue\<close>

lemma stamped_keys:
  "queue_reach S q \<Longrightarrow> fst ` set (queued_messages q) \<subseteq> S"
proof (induction rule: queue_reach.induct)
  case (reach_step q q')
  from reach_step(2) show ?case
  proof cases
    case (step_stamp v now i)
    then show ?thesis using reach_step.IH
      by (cases "map_of (unstamped_messages q) i") (auto simp: stamp_None stamp_Some)
  next
    case step_expire
    then show ?thesis using reach_step.IH by (auto simp: queue_simps dest: set_dropWhileD)
  next
    case (step_claim i)
    then show ?thesis using reach_step.IH by (fastforce simp: claim_def split: option.splits)
  qed (use reach_step.IH in \<open>auto simp: queue_simps\<close>)
qed (simp add: message_queue_new_def)

lemma sorted_wrt_dropWhile: "sorted_wrt R xs \<Longrightarrow> sorted_wrt R (dropWhile P xs)"
  by (simp add: dropWhile_eq_drop sorted_wrt_drop)

lemma stamped_sorted:
  assumes "strict_weak_order S vclock_less" "queue_reach S q"
  shows "keys_sorted vclock_less (queued_messages q)"
  using assms(2)
proof (induction rule: queue_reach.induct)
  case (reach_step q q')
  from reach_step(2) show ?case
  proof cases
    case (step_stamp v now i)
    then show ?thesis
      using reach_step.IH stamped_keys [OF reach_step(1)]
      by (cases "map_of (unstamped_messages q) i")
        (auto simp: stamp_None stamp_Some intro!: strict_weak_order.insert_end_sorted [OF assms(1)])
  next
    case step_expire
    then show ?thesis using reach_step.IH by (simp add: queue_simps sorted_wrt_dropWhile)
  next
    case (step_claim i)
    then show ?thesis using reach_step.IH by (auto simp: claim_def sorted_wrt_filter split: option.splits)
  qed (use reach_step.IH in \<open>auto simp: queue_simps\<close>)
qed (simp add: message_queue_new_def)

lemma message_clock_default:
  "queue_reach S q \<Longrightarrow> m \<in> set (queue_content q) \<Longrightarrow> qm_vclock m = vector_clock_default"
proof (induction arbitrary: m rule: queue_reach.induct)
  case (reach_step q q')
  from reach_step(2) show ?case
  proof cases
    case (step_enqueue i now data t)
    then show ?thesis using reach_step.IH reach_step.prems
      by (auto simp: queue_content_def peekAll_def queue_simps umap_insert_def queued_message_new_def split: if_splits)
  next
    case (step_stamp v now i)
    then show ?thesis using reach_step.IH reach_step.prems
      by (cases "map_of (unstamped_messages q) i")
        (fastforce simp: stamp_None stamp_Some queue_content_def peekAll_def umap_erase_def update_local_timestamp_def
          dest: map_of_SomeD)+
  next
    case step_expire
    then show ?thesis using reach_step.IH reach_step.prems
      by (fastforce simp: queue_simps queue_content_def peekAll_def dest: set_dropWhileD)
  next
    case (step_claim i)
    then show ?thesis using reach_step.IH reach_step.prems
      by (fastforce simp: claim_def queue_content_def peekAll_def split: option.splits)
  qed
qed (simp add: message_queue_new_def queue_content_def peekAll_def)

section \<open>Expiry\<close>

lemma dropWhile_sorted_filter:
  fixes f :: "'a \<Rightarrow> int"
  shows "sorted (map f xs) \<Longrightarrow> dropWhile (\<lambda>x. f x < c) xs = filter (\<lambda>x. \<not> f x < c) xs"
proof (induction xs)
  case (Cons x xs)
  show ?case
  proof (cases "f x < c")
    case False
    then have "\<forall>y\<in>set xs. \<not> f y < c" using Cons.prems by fastforce
    then have "filter (\<lambda>x. \<not> f x < c) xs = xs" by (simp only: filter_id_conv)
    then show ?thesis using False by simp
  qed (use Cons in simp)
qed simp

lemma chain_sample: "clock_chain {sample_clock 1 1 1, sample_clock 2 2 2}"
  by (auto simp: clock_chain_def clock_valid_def RF_def dominated_def behind_def)

lemma history_reach: "queue_reach {sample_clock 1 1 1, sample_clock 2 2 2} history_queue"
  unfolding history_queue_def
  by (intro reach_step [OF _ step_stamp] reach_step [OF _ step_enqueue] reach_new insertI1 insertI2)
    (simp_all add: id_fresh_def message_queue_new_def enqueue_def Let_def umap_insert_def)

lemma history_unfold:
  "queued_messages history_queue =
     [(sample_clock 1 1 1, 1, \<lparr>qm_id = [1], qm_data = ''a'', qm_local_time = 9000000000, qm_vclock = vector_clock_default\<rparr>),
      (sample_clock 2 2 2, 0, \<lparr>qm_id = [2], qm_data = ''b'', qm_local_time = 0, qm_vclock = vector_clock_default\<rparr>)]"
  "ttl history_queue = 5" "message_index history_queue = [[2] \<mapsto> 0, [1] \<mapsto> 1]"
  by (simp_all add: history_queue_def stamp_def message_queue_new_def enqueue_def Let_def umap_insert_def umap_erase_def
      queued_message_new_def update_local_timestamp_def multimap_insert_def upper_bound_def multimap_insert_end_def
      vclock_less_def vector_clock_lt_def node_clock_lt_def)

section \<open>Properties\<close>



text \<open>
  C21: stamping a waiting message moves exactly that message into the ordered queue, under
  the given clock and with its data, refreshes its time, makes it findable by its id, and
  changes neither the number of messages nor the memory they take.
\<close>

theorem stamp_moves_message:
  assumes "queue_inv q" "map_of (unstamped_messages q) i = Some m"
  shows "\<exists>q' ys zs h. stamp now i v q = (True, q') \<and>
     queued_messages q = ys @ zs \<and> queued_messages q' = ys @ (v, h, m\<lparr>qm_local_time := now\<rparr>) # zs \<and>
     map_of (unstamped_messages q') = (map_of (unstamped_messages q))(i := None) \<and>
     message_index q' i = Some h \<and>
     total_count q' = total_count q \<and> memory_size q' = memory_size q"
proof -
  let ?m = "update_local_timestamp now m" and ?q = "snd (stamp now i v q)"
  obtain ys zs where ins: "queued_messages q = ys @ zs"
    "multimap_insert_end vclock_less (v, next_handle q, ?m) (queued_messages q) = ys @ (v, next_handle q, ?m) # zs"
    using multimap_insert_end_split by blast
  have none: "message_index q i = None"
    using assms by (auto simp: queue_inv_def list_all_iff dest: map_of_SomeD)
  have d: "distinct (map fst (unstamped_messages q))" using assms(1) by (simp add: queue_inv_def)
  have "length (umap_erase i (unstamped_messages q)) + 1 = length (unstamped_messages q)"
    using umap_erase_sum [OF d assms(2), of "\<lambda>_. 1 :: nat"] by (simp add: sum_list_triv)
  moreover have "map_of (umap_erase i (unstamped_messages q)) = (map_of (unstamped_messages q))(i := None)"
    by (rule map_of_umap_erase)
  ultimately show ?thesis using ins none
    by (intro exI [of _ ?q] exI [of _ ys] exI [of _ zs] exI [of _ "next_handle q"])
      (simp add: stamp_Some [OF assms(2)] total_count_def memory_size_def update_local_timestamp_def)
qed

theorem stamp_moves_message_witness:
  "\<exists>q' ys zs h. stamp 1 [1] (sample_clock 1 1 1) (enqueue 0 [1] ''a'' 5 (message_queue_new 0 (U128 7 0))) = (True, q') \<and>
     [] = ys @ zs \<and>
     queued_messages q' = ys @ (sample_clock 1 1 1, h, (queued_message_new 0 [1] ''a'')\<lparr>qm_local_time := 1\<rparr>) # zs"
  using stamp_moves_message [of "enqueue 0 [1] ''a'' 5 (message_queue_new 0 (U128 7 0))" "[1]"
      "queued_message_new 0 [1] ''a''" 1 "sample_clock 1 1 1"]
    enqueue_inv [OF new_inv, of "[1]" 0 "U128 7 0" 0 "''a''" 5]
  by (simp add: queue_simps id_fresh_def message_queue_new_def umap_insert_def) blast

text \<open>
  C20: when the stamps that arrive form a causal chain, \<open>peekAll\<close> returns the messages in
  the order of their clocks, in whatever order they were stamped, expired and claimed.
\<close>

theorem queue_clock_order:
  assumes "clock_chain S" "queue_reach S q"
  shows "keys_sorted vclock_less (queued_messages q) \<and> peekAll q = map (snd \<circ> snd) (queued_messages q)"
  using stamped_sorted [OF chain_strict_weak_order [OF assms(1)] assms(2)] by (simp add: peekAll_def)

theorem queue_clock_order_witness:
  "keys_sorted vclock_less (queued_messages history_queue) \<and>
   peekAll history_queue = map (snd \<circ> snd) (queued_messages history_queue)"
  by (rule queue_clock_order [OF chain_sample history_reach])



text \<open>
  The stop at the first unexpired message is premature in general, since the queue is
  ordered by clock and not by time: in the reachable history above a message twelve
  seconds old outlives an expiry run of a queue whose time to live is five seconds.
\<close>

lemma expire_messages_stops_early:
  "queue_reach {sample_clock 1 1 1, sample_clock 2 2 2} history_queue \<and>
   (\<exists>m \<in> set (peekAll (expire_messages 12000000000 history_queue)).
      age 12000000000 m > seconds (ttl history_queue))"
  by (rule conjI [OF history_reach])
    (simp add: peekAll_def queue_simps history_unfold age_def seconds_def)

text \<open>
  Expiry does not clean the index.  After the history above has expired entirely,
  claiming one of its messages dereferences an iterator of an erased element.
\<close>

lemma claim_after_expiry_undefined:
  "queue_reach {sample_clock 1 1 1, sample_clock 2 2 2} (expire_messages 15000000000 history_queue) \<and>
   claim [1] (expire_messages 15000000000 history_queue) = None"
  by (rule conjI [OF reach_step [OF history_reach step_expire]])
    (simp add: claim_def queue_simps history_unfold age_def seconds_def)

end
