(* ===== verification/Queue_Manager.thy ===== *)
theory Queue_Manager
  imports Message_Queue
begin

text \<open>
  \<open>node/src/queue_manager.h\<close>: the queues of a node, in an unordered map keyed by queue id,
  and the heap of queue pointers ordered by expiration.  A reference to a queue is named
  by its key, which is stable because the elements of an unordered map do not move.
  What the manager relies on is the contract \<open>queue_table\<close>, discharged by the message
  queue.
\<close>

section \<open>Definitions\<close>

record queue_manager =
  queues :: "(uint128 \<times> message_queue \<times> nat) list"
  queues_by_expiration :: "(nat \<times> uint128) list"
  next_heap_handle :: nat

definition queue_manager_new :: queue_manager where
  "queue_manager_new = \<lparr>queues = [], queues_by_expiration = [], next_heap_handle = 0\<rparr>"

definition get_queue :: "time_point \<Rightarrow> uint128 \<Rightarrow> queue_manager \<Rightarrow> queue_manager" where
  "get_queue now queueId s =
     (if map_of (queues s) queueId = None then
        (let t = 0;
             s = s\<lparr>queues := umap_insert queueId (message_queue_move (message_queue_new now queueId), t) (queues s)\<rparr>;
             handle = next_heap_handle s;
             s = s\<lparr>queues_by_expiration := queues_by_expiration s @ [(handle, queueId)],
                   next_heap_handle := handle + 1\<rparr>
         in s\<lparr>queues := umap_update queueId (\<lambda>(q, _). (q, handle)) (queues s)\<rparr>)
      else s)"

definition enqueue_message ::
  "time_point \<Rightarrow> uint128 \<Rightarrow> uuid \<Rightarrow> string \<Rightarrow> u32 \<Rightarrow> queue_manager \<Rightarrow> queue_manager" where
  "enqueue_message now queueId messageId data ttlSecs s =
     (let s = get_queue now queueId s
      in s\<lparr>queues := umap_update queueId (\<lambda>(q, h). (enqueue now messageId data ttlSecs q, h)) (queues s)\<rparr>)"

definition stamp_message ::
  "time_point \<Rightarrow> uint128 \<Rightarrow> uuid \<Rightarrow> vector_clock \<Rightarrow> queue_manager \<Rightarrow> queue_manager" where
  "stamp_message now queueId messageId c s =
     (let s = get_queue now queueId s
      in s\<lparr>queues := umap_update queueId (\<lambda>(q, h). (snd (stamp now messageId c q), h)) (queues s)\<rparr>)"

definition queue_of :: "queue_manager \<Rightarrow> uint128 \<Rightarrow> message_queue option" where
  "queue_of s k = map_option fst (map_of (queues s) k)"

definition manager_inv :: "queue_manager \<Rightarrow> bool" where
  "manager_inv s \<longleftrightarrow>
     distinct (map fst (queues s)) \<and>
     (\<forall>(k, q, h)\<in>set (queues s). queue_id q = k \<and> queue_inv q) \<and>
     queues_by_expiration s = map (\<lambda>(k, q, h). (h, k)) (queues s) \<and>
     distinct (map fst (queues_by_expiration s)) \<and>
     (\<forall>(h, k)\<in>set (queues_by_expiration s). h < next_heap_handle s)"

section \<open>The contract of the queues\<close>

locale queue_table =
  fixes fresh :: "'t \<Rightarrow> 'k \<Rightarrow> 'q" and ok :: "'k \<Rightarrow> 'q \<Rightarrow> bool"
  assumes fresh_ok: "ok k (fresh t k)"
begin

definition table_ok :: "('k \<times> 'q \<times> 'h) list \<Rightarrow> bool" where
  "table_ok xs \<longleftrightarrow> distinct (map fst xs) \<and> (\<forall>(k, q, h)\<in>set xs. ok k q)"

lemma insert_ok: "table_ok xs \<Longrightarrow> table_ok (umap_insert k (fresh t k, h) xs)"
  by (auto simp: table_ok_def umap_insert_def map_of_None_fst fresh_ok)

end

interpretation mq_table: queue_table "\<lambda>now k. message_queue_move (message_queue_new now k)"
  "\<lambda>k q. queue_id q = k \<and> queue_inv q"
  by unfold_locales (simp add: message_queue_move_def message_queue_new_def queue_inv_def queue_content_def peekAll_def)

section \<open>Lookup after every operation\<close>

lemma message_queue_move_eq [simp]: "message_queue_move q = q"
  by (simp add: message_queue_move_def)

lemma queue_of_get_queue:
  "queue_of (get_queue now k s) k' =
     (if k' = k then Some (case queue_of s k of Some q \<Rightarrow> q | None \<Rightarrow> message_queue_new now k) else queue_of s k')"
  by (cases "map_of (queues s) k")
    (auto simp: get_queue_def Let_def queue_of_def map_of_umap_update map_of_umap_insert option.map_comp comp_def)

lemma queue_of_update:
  "queue_of (s\<lparr>queues := umap_update k (\<lambda>(q, h). (f q, h)) (queues s)\<rparr>) k' =
     (if k' = k then map_option f (queue_of s k) else queue_of s k')"
  by (auto simp: queue_of_def map_of_umap_update option.map_comp comp_def case_prod_beta)

lemma get_queue_table:
  assumes "map_of (queues s) k = None"
  shows "queues (get_queue now k s) = queues s @ [(k, message_queue_new now k, next_heap_handle s)]"
    "queues_by_expiration (get_queue now k s) = queues_by_expiration s @ [(next_heap_handle s, k)]"
    "next_heap_handle (get_queue now k s) = next_heap_handle s + 1"
proof -
  have "map (\<lambda>(k', v). (k', if k' = k then g v else v)) (queues s) = queues s" for g
    using assms by (force simp: map_of_None_fst intro!: map_idI)
  then show "queues (get_queue now k s) = queues s @ [(k, message_queue_new now k, next_heap_handle s)]"
    "queues_by_expiration (get_queue now k s) = queues_by_expiration s @ [(next_heap_handle s, k)]"
    "next_heap_handle (get_queue now k s) = next_heap_handle s + 1"
    using assms by (simp_all add: get_queue_def Let_def umap_insert_new umap_update_def)
qed

lemma manager_inv_table:
  "manager_inv s \<longleftrightarrow> mq_table.table_ok (queues s) \<and>
     queues_by_expiration s = map (\<lambda>(k, q, h). (h, k)) (queues s) \<and>
     distinct (map fst (queues_by_expiration s)) \<and>
     (\<forall>(h, k)\<in>set (queues_by_expiration s). h < next_heap_handle s)"
  by (auto simp: manager_inv_def mq_table.table_ok_def)

lemma get_queue_inv:
  assumes "manager_inv s"
  shows "manager_inv (get_queue now k s)"
proof (cases "map_of (queues s) k = None")
  case True
  have "mq_table.table_ok (queues (get_queue now k s))"
    using mq_table.insert_ok [of "queues s" k now "next_heap_handle s"] assms True
    by (simp add: get_queue_table [OF True] manager_inv_table umap_insert_new)
  moreover have "next_heap_handle s \<notin> fst ` set (queues_by_expiration s)"
    using assms by (auto simp: manager_inv_def)
  ultimately show ?thesis using assms
    unfolding manager_inv_table get_queue_table [OF True] by (auto simp: less_Suc_eq)
next
  case False
  then have "get_queue now k s = s" unfolding get_queue_def by (rule if_not_P)
  then show ?thesis using assms by simp
qed

lemma update_inv:
  assumes "manager_inv s" "\<And>q. queue_of s k = Some q \<Longrightarrow> queue_inv q \<Longrightarrow> queue_inv (f q) \<and> queue_id (f q) = queue_id q"
  shows "manager_inv (s\<lparr>queues := umap_update k (\<lambda>(q, h). (f q, h)) (queues s)\<rparr>)"
proof -
  have "map (\<lambda>(k, q, h). (h, k)) (umap_update k (\<lambda>(q, h). (f q, h)) xs) = map (\<lambda>(k, q, h). (h, k)) xs"
    for xs :: "(uint128 \<times> message_queue \<times> nat) list"
    by (induction xs) (auto simp: umap_update_def)
  moreover have "\<forall>(k', q, h)\<in>set (umap_update k (\<lambda>(q, h). (f q, h)) (queues s)). queue_id q = k' \<and> queue_inv q"
  proof -
    have "queue_id (f q) = k \<and> queue_inv (f q)" if e: "(k, q, h) \<in> set (queues s)" for q h
    proof -
      have "queue_id q = k" "queue_inv q" using e assms(1) by (auto simp: manager_inv_def)
      moreover have "map_of (queues s) k = Some (q, h)" using e assms(1) by (simp add: manager_inv_def)
      ultimately show ?thesis using assms(2) [of q] by (simp add: queue_of_def)
    qed
    moreover have "\<forall>(k, q, h)\<in>set (queues s). queue_id q = k \<and> queue_inv q"
      using assms(1) by (simp add: manager_inv_def)
    ultimately show ?thesis by (fastforce simp: umap_update_def split: if_splits)
  qed
  ultimately show ?thesis using assms(1) unfolding manager_inv_def by simp (metis map_map)
qed

section \<open>Properties\<close>

text \<open>
  publishing and stamping address one queue: the queue of the given id is created on
  first use and receives exactly the operation; every other queue is untouched.
\<close>

theorem manager_operations_frame:
  "queue_of (enqueue_message now k i data t s) k' =
     (if k' = k
      then Some (enqueue now i data t (case queue_of s k of Some q \<Rightarrow> q | None \<Rightarrow> message_queue_new now k))
      else queue_of s k') \<and>
   queue_of (stamp_message now k i c s) k' =
     (if k' = k
      then Some (snd (stamp now i c (case queue_of s k of Some q \<Rightarrow> q | None \<Rightarrow> message_queue_new now k)))
      else queue_of s k')"
  by (simp add: enqueue_message_def stamp_message_def Let_def queue_of_update queue_of_get_queue)

lemma stamp_queue_id [simp]: "queue_id (snd (stamp now i c q)) = queue_id q"
  by (cases "map_of (unstamped_messages q) i") (simp_all add: stamp_None stamp_Some)

lemma fresh_after_get:
  "(\<forall>q. queue_of s k = Some q \<longrightarrow> id_fresh i q) \<Longrightarrow> queue_of (get_queue now k s) k = Some q \<Longrightarrow> id_fresh i q"
  by (auto simp: queue_of_get_queue id_fresh_def message_queue_new_def split: option.splits)



end
