(* ===== verification/Endpoint.thy ===== *)
theory Endpoint
  imports Sopmq_Prelude "HOL-Library.List_Lexorder" "HOL-Library.Char_ord"
begin

text \<open>
  \<open>shared/src/endpoint.{h,cpp}\<close>: the address of a node and the parser of the URIs
  \<open>sopmq1://host[:port]\<close> that clients and configurations give.  The two Boost functions
  the parser calls, \<open>to_lower_copy\<close> and \<open>lexical_cast<unsigned short>\<close> (\<open>None\<close> for
  \<open>bad_lexical_cast\<close>), are the parameters \<open>lower\<close> and \<open>cast\<close>.
\<close>

section \<open>Definitions\<close>

datatype endpoint_proto = SOPMQvUNKNOWN | SOPMQv1

datatype endpoint_error = uri_parse_error string | invalid_protocol_error string

record endpoint =
  host_name :: string
  port :: u16
  protocol :: endpoint_proto
  stringUri :: string

text \<open>The default constructor leaves port and protocol uninitialised.\<close>

definition endpoint_default :: "u16 \<Rightarrow> endpoint_proto \<Rightarrow> endpoint" where
  "endpoint_default uport uproto = \<lparr>host_name = '''', port = uport, protocol = uproto, stringUri = ''''\<rparr>"

definition endpoint_host_port :: "string \<Rightarrow> u16 \<Rightarrow> endpoint" where
  "endpoint_host_port hostName p =
     \<lparr>host_name = hostName, port = p, protocol = SOPMQv1, stringUri = ''''\<rparr>"

definition endpoint_of_tcp :: "string \<times> u16 \<Rightarrow> endpoint" where
  "endpoint_of_tcp ep = \<lparr>host_name = fst ep, port = snd ep, protocol = SOPMQv1, stringUri = ''''\<rparr>"

definition get_default_port_for_proto :: "endpoint_proto \<Rightarrow> endpoint_error + u16" where
  "get_default_port_for_proto proto =
     (case proto of
        SOPMQv1 \<Rightarrow> Inr 8481
      | _ \<Rightarrow> Inl (invalid_protocol_error ''port number for protocol is unknown''))"

definition scheme_name_to_protocol :: "(string \<Rightarrow> string) \<Rightarrow> string \<Rightarrow> endpoint_error + endpoint_proto" where
  "scheme_name_to_protocol lower scheme =
     (if lower scheme = ''sopmq1'' then Inr SOPMQv1
      else Inl (invalid_protocol_error (scheme @ '' is an unknown protocol'')))"

text \<open>A loop that reads characters until the next \<open>':'\<close> or the end of the uri.\<close>

fun read_until_colon :: "string \<Rightarrow> string \<times> string" where
  "read_until_colon [] = ([], [])"
| "read_until_colon (c # cs) =
     (if c \<noteq> CHR '':'' then (case read_until_colon cs of (a, r) \<Rightarrow> (c # a, r)) else ([], c # cs))"

text \<open>The parser; the list in hand is what lies between \<open>iter\<close> and \<open>end\<close>.\<close>

definition parse_authority ::
  "(string \<Rightarrow> string) \<Rightarrow> (string \<Rightarrow> u16 option) \<Rightarrow> string \<Rightarrow> string \<Rightarrow> endpoint
     \<Rightarrow> endpoint_error + endpoint" where
  "parse_authority lower cast scheme iter ep =
     (case read_until_colon iter of (hostname, iter) \<Rightarrow>
        if iter = [] then
          andthen (scheme_name_to_protocol lower scheme) (\<lambda>proto.
            let ep = ep\<lparr>protocol := proto, host_name := hostname\<rparr>
            in andthen (get_default_port_for_proto proto) (\<lambda>p. Inr (ep\<lparr>port := p\<rparr>)))
        else
          (let iter = tl iter in
           if iter = [] then Inl (uri_parse_error ''port not specified'')
           else
             andthen (scheme_name_to_protocol lower scheme) (\<lambda>proto.
               let ep = ep\<lparr>protocol := proto, host_name := hostname\<rparr>
               in case cast iter of
                    Some p \<Rightarrow> Inr (ep\<lparr>port := p\<rparr>)
                  | None \<Rightarrow> Inl (uri_parse_error ''port number specified was invalid''))))"

definition parse_uri ::
  "(string \<Rightarrow> string) \<Rightarrow> (string \<Rightarrow> u16 option) \<Rightarrow> string \<Rightarrow> endpoint \<Rightarrow> endpoint_error + endpoint" where
  "parse_uri lower cast uri ep =
     (if uri = [] then Inl (uri_parse_error ''uri was empty'')
      else
        (case read_until_colon uri of (scheme, iter) \<Rightarrow>
           if iter = [] then Inl (uri_parse_error ''scheme could not be deduced'')
           else
             (let iter = tl iter in
              if iter = [] \<or> hd iter \<noteq> CHR ''/'' then Inl (uri_parse_error ''expecting a / after scheme:'')
              else
                (let iter = tl iter in
                 if iter = [] \<or> hd iter \<noteq> CHR ''/'' then Inl (uri_parse_error ''expecting a / after scheme:/'')
                 else
                   (let iter = tl iter in
                    if iter = [] then Inl (uri_parse_error ''nothing found after scheme'')
                    else parse_authority lower cast scheme iter ep)))))"

definition endpoint_of_uri ::
  "(string \<Rightarrow> string) \<Rightarrow> (string \<Rightarrow> u16 option) \<Rightarrow> u16 \<Rightarrow> endpoint_proto \<Rightarrow> string \<Rightarrow> endpoint_error + endpoint" where
  "endpoint_of_uri lower cast uport uproto uri =
     andthen (parse_uri lower cast uri (endpoint_default uport uproto)) (\<lambda>ep. Inr (ep\<lparr>stringUri := uri\<rparr>))"

definition endpoint_lt :: "endpoint \<Rightarrow> endpoint \<Rightarrow> bool" where
  "endpoint_lt lhs rhs \<longleftrightarrow> stringUri lhs < stringUri rhs"

definition endpoint_output :: "string \<Rightarrow> endpoint \<Rightarrow> string" where
  "endpoint_output stream ep = stream @ stringUri ep"

text \<open>The grammar of the accepted URIs, for the specification.\<close>

definition uri_grammar ::
  "(string \<Rightarrow> string) \<Rightarrow> (string \<Rightarrow> u16 option) \<Rightarrow> string \<Rightarrow> string \<Rightarrow> u16 \<Rightarrow> bool" where
  "uri_grammar lower cast uri host p \<longleftrightarrow>
     (\<exists>scheme. lower scheme = ''sopmq1'' \<and> CHR '':'' \<notin> set scheme \<and> CHR '':'' \<notin> set host \<and>
        (uri = scheme @ ''://'' @ host \<and> host \<noteq> [] \<and> p = 8481 \<or>
         (\<exists>digits. uri = scheme @ ''://'' @ host @ '':'' @ digits \<and> digits \<noteq> [] \<and> cast digits = Some p)))"

section \<open>The loops\<close>

lemma read_until_colon_eq:
  "read_until_colon s = (takeWhile (\<lambda>c. c \<noteq> CHR '':'') s, dropWhile (\<lambda>c. c \<noteq> CHR '':'') s)"
  by (induction s) simp_all

lemma read_colon_stop:
  "CHR '':'' \<notin> set a \<Longrightarrow> read_until_colon (a @ CHR '':'' # r) = (a, CHR '':'' # r)"
  "CHR '':'' \<notin> set a \<Longrightarrow> read_until_colon a = (a, [])"
  by (induction a) auto

lemma read_until_colon_iff:
  "read_until_colon s = (a, r) \<longleftrightarrow> s = a @ r \<and> CHR '':'' \<notin> set a \<and> (r = [] \<or> hd r = CHR '':'')"
proof
  assume "read_until_colon s = (a, r)"
  then have a: "a = takeWhile (\<lambda>c. c \<noteq> CHR '':'') s" and r: "r = dropWhile (\<lambda>c. c \<noteq> CHR '':'') s"
    by (simp_all add: read_until_colon_eq)
  have "r = [] \<or> hd r = CHR '':''" unfolding r using hd_dropWhile by blast
  moreover have "CHR '':'' \<notin> set a" unfolding a by (auto dest: set_takeWhileD)
  ultimately show "s = a @ r \<and> CHR '':'' \<notin> set a \<and> (r = [] \<or> hd r = CHR '':'')" unfolding a r by simp
next
  assume "s = a @ r \<and> CHR '':'' \<notin> set a \<and> (r = [] \<or> hd r = CHR '':'')"
  then show "read_until_colon s = (a, r)"
    using read_colon_stop [of a] by (cases r) auto
qed

lemma parse_authority_Inr:
  "parse_authority lower cast scheme iter ep = Inr ep' \<longleftrightarrow>
     lower scheme = ''sopmq1'' \<and>
     (\<exists>host p. ep' = ep\<lparr>protocol := SOPMQv1, host_name := host, port := p\<rparr> \<and> CHR '':'' \<notin> set host \<and>
        (iter = host \<and> p = 8481 \<or>
         (\<exists>digits. iter = host @ '':'' @ digits \<and> digits \<noteq> [] \<and> cast digits = Some p)))"
  (is "?L \<longleftrightarrow> ?R")
proof -
  obtain host r where hr: "read_until_colon iter = (host, r)" by force
  then have s: "iter = host @ r" "CHR '':'' \<notin> set host" "r = [] \<or> hd r = CHR '':''"
    unfolding read_until_colon_iff by blast+
  have L: "?L \<longleftrightarrow> lower scheme = ''sopmq1'' \<and>
      (r = [] \<and> ep' = ep\<lparr>protocol := SOPMQv1, host_name := host, port := 8481\<rparr> \<or>
       (\<exists>p. r \<noteq> [] \<and> tl r \<noteq> [] \<and> cast (tl r) = Some p \<and> ep' = ep\<lparr>protocol := SOPMQv1, host_name := host, port := p\<rparr>))"
    by (auto simp: parse_authority_def hr scheme_name_to_protocol_def get_default_port_for_proto_def Let_def
        split: option.splits)
  have R: "iter = host' @ r' \<and> CHR '':'' \<notin> set host' \<and> (r' = [] \<or> hd r' = CHR '':'') \<longleftrightarrow> host' = host \<and> r' = r" for host' r'
    unfolding read_until_colon_iff [symmetric] using hr by auto
  show ?thesis
  proof (cases r)
    case Nil
    then have "iter = host" using s(1) by simp
    with Nil show ?thesis using R [of _ "[]"] R [of _ "CHR '':'' # _"] unfolding L by auto
  next
    case (Cons c cs)
    then have "c = CHR '':''" using s(3) by simp
    then have it: "iter = host @ CHR '':'' # cs" and r: "tl r = cs" "r \<noteq> []" using s(1) Cons by simp_all
    have D: "iter = h @ CHR '':'' # d \<Longrightarrow> CHR '':'' \<notin> set h \<Longrightarrow> h = host \<and> d = cs" for h d
      using R [of h "CHR '':'' # d"] Cons \<open>c = CHR '':''\<close> by simp
    show ?thesis
    proof
      assume ?L
      then show ?R unfolding L r using r(2) it s(2) by force
    next
      assume ?R
      then obtain h p d where "lower scheme = ''sopmq1''" and h: "CHR '':'' \<notin> set h"
        and ep: "ep' = ep\<lparr>protocol := SOPMQv1, host_name := h, port := p\<rparr>"
        and alt: "iter = h \<or> iter = h @ CHR '':'' # d \<and> d \<noteq> [] \<and> cast d = Some p"
        by (metis append_Cons append_Nil)
      moreover have "iter \<noteq> h" using h unfolding it by auto
      moreover from this have "h = host \<and> d = cs \<and> d \<noteq> [] \<and> cast d = Some p"
        using alt D [OF _ h] by blast
      ultimately show ?L unfolding L r using r(2) by blast
    qed
  qed
qed

lemma parse_uri_Inr:
  "parse_uri lower cast uri ep = Inr ep' \<longleftrightarrow>
     (\<exists>host p. uri_grammar lower cast uri host p \<and> ep' = ep\<lparr>protocol := SOPMQv1, host_name := host, port := p\<rparr>)"
  (is "?L \<longleftrightarrow> ?R")
proof -
  obtain scheme r where sr: "read_until_colon uri = (scheme, r)" by force
  have split: "uri = a @ CHR '':'' # t \<and> CHR '':'' \<notin> set a \<longleftrightarrow> a = scheme \<and> r = CHR '':'' # t" for a t
    using sr read_until_colon_iff [of uri a "CHR '':'' # t"] by auto
  have "?L \<longleftrightarrow> (\<exists>rest. r = ''://'' @ rest \<and> rest \<noteq> [] \<and> parse_authority lower cast scheme rest ep = Inr ep')"
  proof (cases "r = []")
    case True
    then show ?thesis by (simp add: parse_uri_def sr)
  next
    case False
    then have hd: "hd r = CHR '':''" and "uri \<noteq> []" using sr unfolding read_until_colon_iff by auto
    have "r = ''://'' @ rest \<longleftrightarrow> (\<exists>a b. r = CHR '':'' # a # b # rest \<and> a = CHR ''/'' \<and> b = CHR ''/'')" for rest by auto
    then show ?thesis using False hd \<open>uri \<noteq> []\<close>
      by (cases r; cases "tl r"; cases "tl (tl r)") (auto simp: parse_uri_def sr Let_def)
  qed
  also have "\<dots> \<longleftrightarrow> ?R"
  proof
    assume "\<exists>rest. r = ''://'' @ rest \<and> rest \<noteq> [] \<and> parse_authority lower cast scheme rest ep = Inr ep'"
    then obtain rest where rest: "uri = scheme @ ''://'' @ rest" "CHR '':'' \<notin> set scheme" "rest \<noteq> []"
      "parse_authority lower cast scheme rest ep = Inr ep'"
      using sr unfolding read_until_colon_iff by auto
    then show ?R unfolding parse_authority_Inr uri_grammar_def by (metis append_assoc)
  next
    assume ?R
    then obtain a host p t where g: "lower a = ''sopmq1''" "CHR '':'' \<notin> set a" "CHR '':'' \<notin> set host"
      "ep' = ep\<lparr>protocol := SOPMQv1, host_name := host, port := p\<rparr>" "uri = a @ CHR '':'' # ''//'' @ t"
      "t \<noteq> []" "t = host \<and> p = 8481 \<or> (\<exists>d. t = host @ '':'' @ d \<and> d \<noteq> [] \<and> cast d = Some p)"
      unfolding uri_grammar_def by auto
    then have "a = scheme" "r = ''://'' @ t" using split [of a "''//'' @ t"] by auto
    moreover from this(1) g have "parse_authority lower cast scheme t ep = Inr ep'"
      unfolding parse_authority_Inr by blast
    ultimately show "\<exists>rest. r = ''://'' @ rest \<and> rest \<noteq> [] \<and> parse_authority lower cast scheme rest ep = Inr ep'"
      using g(6) by blast
  qed
  finally show ?thesis .
qed

section \<open>Properties\<close>

text \<open>\<open>operator<\<close> meets the contract of the ordered containers.\<close>

interpretation endpoint_order: strict_weak_order UNIV endpoint_lt
  by unfold_locales (auto simp: endpoint_lt_def)

text \<open>
  C24: the parser accepts exactly the URIs of the grammar \<open>scheme://host[:port]\<close> with the
  scheme \<open>sopmq1\<close>, and then sets protocol, host and port (the default port when none is
  given); on every other input it throws.
\<close>

theorem parse_uri_grammar:
  "endpoint_of_uri lower cast uport uproto uri = Inr ep \<longleftrightarrow>
     (\<exists>host p. uri_grammar lower cast uri host p \<and>
        ep = \<lparr>host_name = host, port = p, protocol = SOPMQv1, stringUri = uri\<rparr>)"
  by (fastforce simp: endpoint_of_uri_def andthen_Inr_iff parse_uri_Inr endpoint_default_def)

end
