(* ===== verification/Failure_Detector.thy ===== *)
theory Failure_Detector
  imports Sopmq_Prelude Complex_Main "HOL-Library.Log_Nat"
begin

text \<open>
  \<open>node/src/failure_detector.{h,cpp}\<close>: the phi accrual detector that decides whether a
  node is up.  The \<open>float\<close> arithmetic of the source is single precision: a finite value
  is the rational it denotes, every operation rounds to nearest, ties to even, with 24
  bits of precision, and division by zero yields an infinity or a NaN.  Intervals are at
  most \<open>2^63\<close> milliseconds, so no value reaches the bounds of the exponent range.
\<close>

section \<open>Single-precision arithmetic\<close>

datatype float32 = Fin rat | PInf | NInf | NaN

definition round_even :: "rat \<Rightarrow> int" where
  "round_even x =
     (let f = \<lfloor>x\<rfloor>; d = x - of_int f
      in if d < 1 / 2 then f else if d > 1 / 2 then f + 1 else if even f then f else f + 1)"

definition fl_exponent :: "rat \<Rightarrow> int" where
  "fl_exponent x =
     (case quotient_of x of (p, q) \<Rightarrow>
        let e = int (floorlog 2 (nat p)) - int (floorlog 2 (nat q))
        in if 2 powi e \<le> x then e else e - 1)"

definition fl_round_pos :: "rat \<Rightarrow> rat" where
  "fl_round_pos x = (let u = 2 powi (fl_exponent x - 23) in of_int (round_even (x / u)) * u)"

definition fl_round :: "rat \<Rightarrow> rat" where
  "fl_round x = (if x = 0 then 0 else if x < 0 then - fl_round_pos (- x) else fl_round_pos x)"

text \<open>Division, multiplication and comparison; an operand of the program is never \<open>-0\<close>.\<close>

fun fl_div :: "float32 \<Rightarrow> float32 \<Rightarrow> float32" where
  "fl_div (Fin a) (Fin b) =
     (if b = 0 then (if a = 0 then NaN else if a > 0 then PInf else NInf) else Fin (fl_round (a / b)))"
| "fl_div (Fin a) PInf = Fin 0"
| "fl_div (Fin a) NInf = Fin 0"
| "fl_div PInf (Fin b) = (if b \<ge> 0 then PInf else NInf)"
| "fl_div NInf (Fin b) = (if b \<ge> 0 then NInf else PInf)"
| "fl_div _ _ = NaN"

definition fl_inf_sign :: "bool \<Rightarrow> float32" where
  "fl_inf_sign positive = (if positive then PInf else NInf)"

fun fl_mult :: "float32 \<Rightarrow> float32 \<Rightarrow> float32" where
  "fl_mult (Fin a) (Fin b) = Fin (fl_round (a * b))"
| "fl_mult (Fin a) PInf = (if a = 0 then NaN else fl_inf_sign (a > 0))"
| "fl_mult (Fin a) NInf = (if a = 0 then NaN else fl_inf_sign (a < 0))"
| "fl_mult PInf (Fin b) = (if b = 0 then NaN else fl_inf_sign (b > 0))"
| "fl_mult NInf (Fin b) = (if b = 0 then NaN else fl_inf_sign (b < 0))"
| "fl_mult PInf PInf = PInf"
| "fl_mult PInf NInf = NInf"
| "fl_mult NInf PInf = NInf"
| "fl_mult NInf NInf = PInf"
| "fl_mult _ _ = NaN"

fun fl_ge :: "float32 \<Rightarrow> float32 \<Rightarrow> bool" where
  "fl_ge (Fin a) (Fin b) \<longleftrightarrow> a \<ge> b"
| "fl_ge PInf b \<longleftrightarrow> b \<noteq> NaN"
| "fl_ge (Fin a) NInf \<longleftrightarrow> True"
| "fl_ge NInf NInf \<longleftrightarrow> True"
| "fl_ge _ _ \<longleftrightarrow> False"

definition fl_of_int :: "int \<Rightarrow> float32" where
  "fl_of_int n = Fin (fl_round (of_int n))"

section \<open>The detector\<close>

datatype failure_state = UP | DOWN

definition SAMPLE_SIZE :: nat where
  "SAMPLE_SIZE = 1000"

record failure_detector =
  failure_threshold :: "32 word"
  last_heartbeat :: time_point
  intervals :: "int list"

definition failure_detector_new :: "time_point \<Rightarrow> 32 word \<Rightarrow> int \<Rightarrow> failure_detector" where
  "failure_detector_new now threshold initialValue =
     \<lparr>failure_threshold = threshold, last_heartbeat = now, intervals = replicate SAMPLE_SIZE initialValue\<rparr>"

text \<open>\<open>duration_cast<milliseconds>\<close> truncates towards zero.\<close>

definition to_milliseconds :: "int \<Rightarrow> int" where
  "to_milliseconds d = sgn d * (\<bar>d\<bar> div 1000000)"

definition current_interval :: "time_point \<Rightarrow> failure_detector \<Rightarrow> int" where
  "current_interval compareTo fd = to_milliseconds (compareTo - last_heartbeat fd)"

text \<open>\<open>push_back\<close> on a circular buffer drops the oldest element of a full buffer.\<close>

definition circular_push_back :: "nat \<Rightarrow> 'a \<Rightarrow> 'a list \<Rightarrow> 'a list" where
  "circular_push_back capacity x xs = (if length xs = capacity then tl xs @ [x] else xs @ [x])"

definition heartbeat :: "time_point \<Rightarrow> failure_detector \<Rightarrow> failure_detector" where
  "heartbeat now fd =
     (let interval = current_interval now fd;
          fd = fd\<lparr>last_heartbeat := now\<rparr>
      in fd\<lparr>intervals := circular_push_back SAMPLE_SIZE interval (intervals fd)\<rparr>)"

text \<open>
  \<open>std::accumulate\<close> with the \<open>int\<close> start value 0 keeps its sum in an \<open>int\<close>: each
  64-bit sum is converted back to 32 bits.
\<close>

definition interval_sum :: "failure_detector \<Rightarrow> 32 word" where
  "interval_sum fd = foldl (\<lambda>acc x. word_of_int (sint acc + x)) 0 (intervals fd)"

definition current_interval_average :: "failure_detector \<Rightarrow> float32" where
  "current_interval_average fd = fl_div (fl_of_int (sint (interval_sum fd))) (fl_of_int (int SAMPLE_SIZE))"

definition PHI_FACTOR :: rat where
  "PHI_FACTOR = fl_round (43429448190 / 100000000000)"

definition current_phi :: "time_point \<Rightarrow> failure_detector \<Rightarrow> float32" where
  "current_phi compareTo fd =
     (let interval = current_interval compareTo fd;
          phi = fl_div (fl_of_int interval) (current_interval_average fd)
      in fl_mult (Fin PHI_FACTOR) phi)"

definition interpret_at :: "time_point \<Rightarrow> failure_detector \<Rightarrow> failure_state" where
  "interpret_at compareTo fd =
     (if fl_ge (current_phi compareTo fd) (fl_of_int (sint (failure_threshold fd))) then DOWN else UP)"

section \<open>Rounding\<close>

lemma floorlog2_bounds: "0 < n \<Longrightarrow> 2 ^ (floorlog 2 n - 1) \<le> n \<and> n < 2 ^ floorlog 2 n"
  using floorlog_bounds [of n 2] by simp

lemma floorlog_pos: "0 < n \<Longrightarrow> 0 < floorlog 2 n"
  by (simp add: floorlog_def)

lemma fl_exponent_bounds:
  assumes "0 < x"
  shows "2 powi fl_exponent x \<le> x \<and> x < 2 powi (fl_exponent x + 1)"
proof -
  obtain p q where pq: "quotient_of x = (p, q)" by force
  then have q: "0 < q" and x: "x = of_int p / of_int q" by (simp_all add: quotient_of_denom_pos quotient_of_div)
  then have p: "0 < p" using assms by (simp add: zero_less_divide_iff)
  define a b where "a = floorlog 2 (nat p)" and "b = floorlog 2 (nat q)"
  have ab: "0 < a" "0 < b" using p q by (simp_all add: a_def b_def floorlog_pos)
  have "2 ^ (a - 1) \<le> nat p" "nat p < 2 ^ a" "2 ^ (b - 1) \<le> nat q" "nat q < 2 ^ b"
    using floorlog2_bounds [of "nat p"] floorlog2_bounds [of "nat q"] p q by (simp_all add: a_def b_def)
  then have "2 ^ (a - 1) \<le> p" "p < 2 ^ a" "2 ^ (b - 1) \<le> q" "q < 2 ^ b"
    using p q by (simp_all add: nat_le_iff nat_less_iff le_nat_iff)
  then have P: "(2 :: rat) ^ (a - 1) \<le> of_int p" "of_int p < (2 :: rat) ^ a"
    and Q: "(2 :: rat) ^ (b - 1) \<le> of_int q" "of_int q < (2 :: rat) ^ b"
    by (metis of_int_le_iff of_int_less_iff of_int_numeral of_int_power)+
  have S: "(2 :: rat) ^ a = 2 * 2 ^ (a - 1)" "(2 :: rat) ^ b = 2 * 2 ^ (b - 1)"
    using ab by (metis Suc_diff_1 power_Suc)+
  have e: "(2 :: rat) powi (int a - int b) = 2 ^ a / 2 ^ b" by (simp add: power_int_diff)
  have up: "x < 2 powi (int a - int b + 1)"
  proof -
    have "x < 2 ^ a / of_int q" unfolding x using P(2) q by (simp add: divide_strict_right_mono)
    also have "\<dots> \<le> 2 ^ a / 2 ^ (b - 1)" using Q(1) q by (intro divide_left_mono) simp_all
    also have "\<dots> = 2 powi (int a - int b + 1)" by (simp add: power_int_add e S(2))
    finally show ?thesis .
  qed
  have low: "2 powi (int a - int b - 1) \<le> x"
  proof -
    have "2 powi (int a - int b - 1) = (2 :: rat) ^ (a - 1) / 2 ^ b"
      by (simp add: power_int_diff S(1))
    also have "\<dots> \<le> 2 ^ (a - 1) / of_int q" using Q(2) q by (intro divide_left_mono) simp_all
    also have "\<dots> \<le> x" unfolding x using P(1) q by (simp add: divide_right_mono)
    finally show ?thesis .
  qed
  show ?thesis using up low by (auto simp: fl_exponent_def pq Let_def a_def [symmetric] b_def [symmetric])
qed

lemma round_even_int [simp]: "round_even (of_int n) = n"
  by (simp add: round_even_def)

lemma round_even_bounds: "\<lfloor>x\<rfloor> \<le> round_even x" "round_even x \<le> \<lfloor>x\<rfloor> + 1"
  by (simp_all add: round_even_def Let_def)

lemma round_even_mono: "x \<le> y \<Longrightarrow> round_even x \<le> round_even y"
proof (cases "\<lfloor>x\<rfloor> = \<lfloor>y\<rfloor>")
  case True
  then show "x \<le> y \<Longrightarrow> ?thesis" by (auto simp: round_even_def Let_def)
next
  case False
  assume "x \<le> y"
  with False have "\<lfloor>x\<rfloor> + 1 \<le> \<lfloor>y\<rfloor>" using floor_mono [of x y] by linarith
  then show ?thesis using round_even_bounds(2) [of x] round_even_bounds(1) [of y] by linarith
qed

lemma fl_round_pos_bounds:
  assumes "0 < x"
  shows "2 powi fl_exponent x \<le> fl_round_pos x \<and> fl_round_pos x \<le> 2 powi (fl_exponent x + 1)"
proof -
  define e u where "e = fl_exponent x" and "u = (2 :: rat) powi (e - 23)"
  have u: "0 < u" by (simp add: u_def)
  have pw: "(2 :: rat) powi e = 2 ^ 23 * u" "(2 :: rat) powi (e + 1) = 2 ^ 24 * u"
    by (simp_all add: u_def power_int_diff power_int_add)
  have "of_int (2 ^ 23) \<le> x / u" "x / u \<le> of_int (2 ^ 24)"
    using fl_exponent_bounds [OF assms, folded e_def, unfolded pw] u by (simp_all add: field_simps)
  then have "2 ^ 23 \<le> round_even (x / u)" "round_even (x / u) \<le> 2 ^ 24"
    using round_even_mono round_even_int by metis+
  then have "(2 :: rat) ^ 23 \<le> of_int (round_even (x / u))" "of_int (round_even (x / u)) \<le> (2 :: rat) ^ 24"
    by (metis of_int_le_iff of_int_numeral of_int_power)+
  then show ?thesis using u
    unfolding fl_round_pos_def e_def [symmetric] pw u_def [symmetric] Let_def by (simp add: mult_right_mono)
qed

lemma fl_round_pos_mono:
  assumes "0 < x" "x \<le> y"
  shows "fl_round_pos x \<le> fl_round_pos y"
proof (cases "fl_exponent x = fl_exponent y")
  case True
  then have "round_even (x / 2 powi (fl_exponent x - 23)) \<le> round_even (y / 2 powi (fl_exponent x - 23))"
    using assms(2) by (intro round_even_mono divide_right_mono) simp_all
  then show ?thesis unfolding fl_round_pos_def Let_def True by (intro mult_right_mono) simp_all
next
  case False
  have y: "0 < y" using assms by simp
  have "fl_exponent x < fl_exponent y + 1"
  proof (rule ccontr)
    assume "\<not> ?thesis"
    then have "(2 :: rat) powi (fl_exponent y + 1) \<le> 2 powi fl_exponent x" by (intro power_int_increasing) simp_all
    then show False using fl_exponent_bounds [OF assms(1)] fl_exponent_bounds [OF y] assms(2) by linarith
  qed
  then have "fl_exponent x + 1 \<le> fl_exponent y" using False by simp
  then have "(2 :: rat) powi (fl_exponent x + 1) \<le> 2 powi fl_exponent y" by (intro power_int_increasing) simp_all
  then show ?thesis using fl_round_pos_bounds [OF assms(1)] fl_round_pos_bounds [OF y] by linarith
qed

lemma fl_round_pos_pos: "0 < x \<Longrightarrow> 0 < fl_round_pos x"
  using fl_round_pos_bounds [of x] by (meson less_le_trans zero_less_power_int zero_less_numeral)

lemma fl_round_pos_half: "0 < x \<Longrightarrow> x / 2 \<le> fl_round_pos x"
  using fl_round_pos_bounds [of x] fl_exponent_bounds [of x] by (simp add: power_int_add)

lemma fl_round_mono: "x \<le> y \<Longrightarrow> fl_round x \<le> fl_round y"
  using fl_round_pos_pos [of y] fl_round_pos_pos [of "- x"] fl_round_pos_mono [of x y] fl_round_pos_mono [of "- y" "- x"]
  by (auto simp: fl_round_def)

lemma fl_round_0 [simp]: "fl_round 0 = 0"
  by (simp add: fl_round_def)

lemma fl_round_pos_iff [simp]: "0 < fl_round x \<longleftrightarrow> 0 < x"
  using fl_round_pos_pos [of x] fl_round_pos_pos [of "- x"] by (auto simp: fl_round_def)

lemma fl_round_neg_iff [simp]: "fl_round x < 0 \<longleftrightarrow> x < 0"
  using fl_round_pos_pos [of x] fl_round_pos_pos [of "- x"] by (auto simp: fl_round_def)

lemma fl_round_le_0: "fl_round x \<le> 0 \<longleftrightarrow> x \<le> 0"
  using fl_round_pos_iff [of x] by linarith

lemma fl_round_half: "0 < x \<Longrightarrow> x / 2 \<le> fl_round x"
  using fl_round_pos_half by (simp add: fl_round_def)

section \<open>The suspicion level\<close>

lemma PHI_FACTOR_pos: "0 < PHI_FACTOR"
  by (simp add: PHI_FACTOR_def)

lemma fl_of_int_SAMPLE: "\<exists>c > 0. fl_of_int (int SAMPLE_SIZE) = Fin c"
  by (simp add: fl_of_int_def SAMPLE_SIZE_def)

lemma average_pos:
  assumes "0 < sint (interval_sum fd)"
  shows "\<exists>a > 0. current_interval_average fd = Fin a"
proof -
  obtain c where c: "c > 0" "fl_of_int (int SAMPLE_SIZE) = Fin c" using fl_of_int_SAMPLE by blast
  define n where "n = sint (interval_sum fd)"
  have "0 < fl_round (of_int n) / c" using assms c(1) by (simp add: n_def [symmetric])
  then show ?thesis using c by (simp add: current_interval_average_def fl_of_int_def [of n] flip: n_def)
qed

lemma average_neg:
  assumes "sint (interval_sum fd) < 0"
  shows "\<exists>a < 0. current_interval_average fd = Fin a"
proof -
  obtain c where c: "c > 0" "fl_of_int (int SAMPLE_SIZE) = Fin c" using fl_of_int_SAMPLE by blast
  define n where "n = sint (interval_sum fd)"
  have "fl_round (of_int n) / c < 0" using assms c(1) by (simp add: n_def [symmetric] divide_neg_pos)
  then show ?thesis using c by (simp add: current_interval_average_def fl_of_int_def [of n] flip: n_def)
qed

lemma average_zero: "interval_sum fd = 0 \<Longrightarrow> current_interval_average fd = Fin 0"
  using fl_of_int_SAMPLE by (auto simp: current_interval_average_def fl_of_int_def [of 0])

lemma interval_sum_word: "interval_sum fd = word_of_int (sum_list (intervals fd))"
proof -
  have "word_of_int (sint acc + x) = (acc + word_of_int x :: 32 word)" for acc x by simp
  moreover have "foldl (\<lambda>acc x. acc + word_of_int x) w xs = (w + word_of_int (sum_list xs) :: 32 word)" for w xs
    by (induction xs arbitrary: w) (simp_all add: add.assoc)
  ultimately show ?thesis by (simp only: interval_sum_def add_0)
qed

lemma interval_sum_zero: "interval_sum \<lparr>failure_threshold = n, last_heartbeat = t, intervals = replicate k 0\<rparr> = 0"
  by (simp add: interval_sum_word sum_list_replicate)

lemma phi_pos_average:
  assumes "current_interval_average fd = Fin a" "a > 0"
  shows "current_phi t fd =
     Fin (fl_round (PHI_FACTOR * fl_round (fl_round (of_int (current_interval t fd)) / a)))"
  using assms by (simp add: current_phi_def Let_def fl_of_int_def)

lemma phi_zero_average:
  assumes "current_interval_average fd = Fin 0"
  shows "current_phi t fd =
     (if current_interval t fd = 0 then NaN else if current_interval t fd > 0 then PInf else NInf)"
proof -
  have "fl_round (of_int i) = 0 \<longleftrightarrow> i = 0" for i
    using fl_round_pos_iff [of "of_int i"] fl_round_pos_pos [of "- of_int i"] by (auto simp: fl_round_def)
  then show ?thesis using assms PHI_FACTOR_pos
    by (simp add: current_phi_def Let_def fl_of_int_def fl_inf_sign_def)
qed

lemma to_milliseconds_mono: "d \<le> e \<Longrightarrow> to_milliseconds d \<le> to_milliseconds e"
proof -
  assume "d \<le> e"
  consider "d < 0" "e < 0" | "d < 0" "e \<ge> 0" | "d \<ge> 0" "e \<ge> 0" using \<open>d \<le> e\<close> by linarith
  then show ?thesis using \<open>d \<le> e\<close>
    by cases (auto simp: to_milliseconds_def sgn_if zdiv_mono1 intro: order.trans [of _ 0])
qed

lemma phi_mono:
  assumes "current_interval_average fd = Fin a" "a > 0" "t \<le> t'"
  shows "fl_round (PHI_FACTOR * fl_round (fl_round (of_int (current_interval t fd)) / a))
    \<le> fl_round (PHI_FACTOR * fl_round (fl_round (of_int (current_interval t' fd)) / a))"
proof -
  have "current_interval t fd \<le> current_interval t' fd"
    using assms(3) by (simp add: current_interval_def to_milliseconds_mono)
  then show ?thesis using assms(2) PHI_FACTOR_pos
    by (intro fl_round_mono mult_left_mono divide_right_mono) simp_all
qed

lemma phi_lower:
  assumes "a > 0" "i > 0"
  shows "PHI_FACTOR * of_int i / (8 * a) \<le> fl_round (PHI_FACTOR * fl_round (fl_round (of_int i) / a))"
proof -
  have 1: "of_int i / 2 \<le> fl_round (of_int i)" using assms by (intro fl_round_half) simp
  have 2: "fl_round (of_int i) / a / 2 \<le> fl_round (fl_round (of_int i) / a)"
    using assms by (intro fl_round_half) simp
  have 3: "PHI_FACTOR * fl_round (fl_round (of_int i) / a) / 2
      \<le> fl_round (PHI_FACTOR * fl_round (fl_round (of_int i) / a))"
    using assms PHI_FACTOR_pos by (intro fl_round_half) simp
  have "of_int i / 2 / a / 2 \<le> fl_round (fl_round (of_int i) / a)"
    using 1 2 assms(1) by (smt (verit) divide_right_mono order.trans less_imp_le zero_le_numeral)
  then have "PHI_FACTOR * (of_int i / 2 / a / 2) / 2 \<le> PHI_FACTOR * fl_round (fl_round (of_int i) / a) / 2"
    using PHI_FACTOR_pos by (intro divide_right_mono mult_left_mono) simp_all
  with 3 show ?thesis by (simp add: field_simps)
qed

lemma interpret_down_mono:
  assumes "0 \<le> sint (interval_sum fd)" "interpret_at t fd = DOWN" "t \<le> t'"
  shows "interpret_at t' fd = DOWN"
proof (cases "interval_sum fd = 0")
  case True
  have "current_interval t fd \<le> current_interval t' fd"
    using assms(3) by (simp add: current_interval_def to_milliseconds_mono)
  then show ?thesis using assms(2)
    by (auto simp: interpret_at_def phi_zero_average [OF average_zero [OF True]] fl_of_int_def split: if_splits)
next
  case False
  then have "0 < sint (interval_sum fd)" using assms(1) by (simp add: order_less_le signed_eq_0_iff)
  then obtain a where a: "current_interval_average fd = Fin a" "a > 0" using average_pos by blast
  show ?thesis using assms(2) phi_mono [OF a assms(3)]
    by (auto simp: interpret_at_def phi_pos_average [OF a] fl_of_int_def split: if_splits)
qed

section \<open>Properties\<close>

text \<open>
  suspicion only grows between heartbeats: a node found \<open>DOWN\<close> is found \<open>DOWN\<close> at
  every later time, with the single-precision roundings taken into account.
\<close>

theorem interpret_monotone:
  assumes "0 \<le> sint (interval_sum fd)" "interpret_at t fd = DOWN" "t \<le> t'"
  shows "interpret_at t' fd = DOWN"
  using assms by (rule interpret_down_mono)



theorem interpret_monotone_witness:
  "interpret_at 9000000 (failure_detector_new 0 8 0) = DOWN"
  by (rule interpret_monotone [of _ 2000000])
    (simp_all add: failure_detector_new_def interval_sum_zero interpret_at_def current_interval_def to_milliseconds_def
      phi_zero_average average_zero fl_of_int_def)

lemma heartbeat_up:
  assumes "0 < sint (failure_threshold fd)"
  shows "interpret_at now (heartbeat now fd) = UP"
proof -
  let ?fd = "heartbeat now fd"
  have i: "current_interval now ?fd = 0"
    by (simp add: current_interval_def heartbeat_def Let_def to_milliseconds_def)
  obtain c where c: "c > 0" "fl_of_int (int SAMPLE_SIZE) = Fin c" using fl_of_int_SAMPLE by blast
  obtain a where a: "current_interval_average ?fd = Fin a"
    using c by (auto simp: current_interval_average_def fl_of_int_def [of "sint _"])
  have "current_phi now ?fd = NaN \<or> current_phi now ?fd = Fin 0"
    by (simp add: current_phi_def Let_def i a fl_of_int_def)
  moreover have "0 < fl_round (of_int (sint (failure_threshold ?fd)))"
    using assms unfolding fl_round_pos_iff of_int_0_less_iff by (simp add: heartbeat_def Let_def)
  ultimately show ?thesis unfolding interpret_at_def fl_of_int_def by (auto simp: fl_round_le_0)
qed

text \<open>
  A heartbeat makes the node \<open>UP\<close> at once, for every positive threshold and whatever
  the history, and keeps the sample window at its size.
\<close>

lemma heartbeat_revives:
  assumes "0 < sint (failure_threshold fd)" "length (intervals fd) = SAMPLE_SIZE"
  shows "interpret_at now (heartbeat now fd) = UP \<and> length (intervals (heartbeat now fd)) = SAMPLE_SIZE"
  using heartbeat_up [OF assms(1)] assms(2)
  by (simp add: heartbeat_def Let_def circular_push_back_def SAMPLE_SIZE_def)

text \<open>
  The sum of the sampled intervals is kept in an \<open>int\<close>.  With a window of intervals
  of about thirty-six minutes it wraps to a negative average, and the detector never
  reports the node down, however long it stays silent.
\<close>

lemma interval_sum_overflow:
  "interpret_at (int t) \<lparr>failure_threshold = 8, last_heartbeat = 0, intervals = replicate SAMPLE_SIZE 2147484\<rparr> = UP"
proof -
  let ?fd = "\<lparr>failure_threshold = 8, last_heartbeat = 0, intervals = replicate SAMPLE_SIZE 2147484\<rparr>"
  have "sint (interval_sum ?fd) < 0"
    by (simp add: interval_sum_word SAMPLE_SIZE_def sum_list_replicate)
  then obtain a where a: "current_interval_average ?fd = Fin a" "a < 0" using average_neg by blast
  have "0 \<le> current_interval (int t) ?fd"
    by (simp add: current_interval_def to_milliseconds_def sgn_if)
  then have "fl_round (of_int (current_interval (int t) ?fd)) / a \<le> 0"
    using a(2) fl_round_mono [of 0 "of_int (current_interval (int t) ?fd)"] by (simp add: divide_nonneg_neg)
  then have "fl_round (PHI_FACTOR * fl_round (fl_round (of_int (current_interval (int t) ?fd)) / a)) \<le> 0"
    using PHI_FACTOR_pos by (simp only: fl_round_le_0) (simp add: mult_le_0_iff fl_round_le_0)
  moreover have "0 < fl_round 8" by simp
  ultimately have "\<not> fl_round 8 \<le> fl_round (PHI_FACTOR * fl_round (fl_round (of_int (current_interval (int t) ?fd)) / a))"
    by linarith
  then show ?thesis using a
    by (simp add: interpret_at_def current_phi_def Let_def fl_of_int_def)
qed

end
