(* ===== verification/Settings.thy ===== *)
theory Settings
  imports Uint128
begin

text \<open>
  \<open>node/src/settings.{h,cpp}\<close>, the client's settings, and the helpers of
  \<open>shared/src/util.cpp\<close> other than the hash.  The singleton of the node is a record that
  the functions reading it take as an argument.  The digest and the hex encoder of
  Crypto++ and the source of randomness are parameters.
\<close>

section \<open>Settings of a node and of a client\<close>

record settings =
  nodeId :: u32
  range_setting :: uint128
  bindAddress :: string
  bindPort :: u16
  cassandraSeeds :: "string list"
  mqSeeds :: "string list"
  maxMessageSize :: u32
  defaultTimeout :: u32
  phiFailureThreshold :: "32 word"
  unitTestUsername :: string
  ringKey :: string
  ring_key_static :: "string option"

definition DEFAULT_MAX_MESSAGE_SIZE :: u32 where
  "DEFAULT_MAX_MESSAGE_SIZE = 10485760"

definition DEFAULT_OPERATION_TIMEOUT :: u32 where
  "DEFAULT_OPERATION_TIMEOUT = 5"

definition DEFAULT_PHI_FAILURE_THRESHOLD :: "32 word" where
  "DEFAULT_PHI_FAILURE_THRESHOLD = 8"

text \<open>The constructor leaves the node id and the port uninitialised.\<close>

definition settings_new :: "u32 \<Rightarrow> u16 \<Rightarrow> settings" where
  "settings_new uninitId uninitPort =
     \<lparr>nodeId = uninitId, range_setting = U128 0 0, bindAddress = '''', bindPort = uninitPort,
      cassandraSeeds = [], mqSeeds = [], maxMessageSize = DEFAULT_MAX_MESSAGE_SIZE,
      defaultTimeout = DEFAULT_OPERATION_TIMEOUT, phiFailureThreshold = DEFAULT_PHI_FAILURE_THRESHOLD,
      unitTestUsername = '''', ringKey = '''', ring_key_static = None\<rparr>"

record client_settings =
  client_maxMessageSize :: u32

definition client_settings_new :: client_settings where
  "client_settings_new = \<lparr>client_maxMessageSize = 10485760\<rparr>"

section \<open>Helpers\<close>

definition hex_encode :: "(u8 list \<Rightarrow> string) \<Rightarrow> u8 list \<Rightarrow> nat \<Rightarrow> string" where
  "hex_encode encoder input inputSize = encoder (take inputSize input)"

definition sha256_hex_string :: "(u8 list \<Rightarrow> u8 list) \<Rightarrow> (u8 list \<Rightarrow> string) \<Rightarrow> string \<Rightarrow> string" where
  "sha256_hex_string digest encoder data = hex_encode encoder (digest (map char_byte data)) 32"

text \<open>The hash of the ring key is computed on the first call and kept in a static.\<close>

definition ring_key_hash ::
  "(u8 list \<Rightarrow> u8 list) \<Rightarrow> (u8 list \<Rightarrow> string) \<Rightarrow> settings \<Rightarrow> string \<times> settings" where
  "ring_key_hash digest encoder s =
     (case ring_key_static s of
        Some h \<Rightarrow> (h, s)
      | None \<Rightarrow> (let h = sha256_hex_string digest encoder (ringKey s) in (h, s\<lparr>ring_key_static := Some h\<rparr>)))"

text \<open>The draws of the uniform distribution over the values of \<open>char\<close>, one per position.\<close>

definition random_bytes :: "(nat \<Rightarrow> u8) \<Rightarrow> int \<Rightarrow> string" where
  "random_bytes dist count = map (\<lambda>i. byte_char (dist i)) [0 ..< nat count]"

datatype util_error = uuid_wrong_size

definition uuid_to_bytes :: "uuid \<Rightarrow> string" where
  "uuid_to_bytes i = map byte_char i"

definition uuid_from_bytes :: "string \<Rightarrow> util_error + uuid" where
  "uuid_from_bytes bytes = (if length bytes \<noteq> 16 then Inl uuid_wrong_size else Inr (map char_byte bytes))"

section \<open>Lemmas\<close>

lemma uuid_bytes: "length i = 16 \<Longrightarrow> uuid_from_bytes (uuid_to_bytes i) = Inr i"
  by (simp add: uuid_from_bytes_def uuid_to_bytes_def comp_def)

lemma length_random_bytes [simp]: "length (random_bytes dist count) = nat count"
  by (simp add: random_bytes_def)

end
