(* ===== verification/Node_Ring.thy ===== *)
theory Node_Ring
  imports Uint128_Text Clocks Endpoint Failure_Detector Settings "HOL-Library.Multiset"
begin

text \<open>
  \<open>node/src/node.{h,cpp}\<close> and \<open>node/src/ring.{h,cpp}\<close>: the nodes a node knows, their
  liveness, and the consistent-hashing ring that maps a key to its primary, secondary and
  tertiary node and picks a quorum of live ones.  A \<open>node::ptr\<close> is a number; the objects
  live in a heap that the functions take as an argument.  The ring is the ordered map from
  range starts to nodes together with the map from node ids.
\<close>

section \<open>Nodes\<close>

datatype operations_handler = local_node_operations

record node =
  n_node_id :: u32
  range_start :: uint128
  n_endpoint :: endpoint
  failure_detector_of :: failure_detector
  operations_handler :: "operations_handler option"
  forced_failure :: bool
  node_clock_of :: node_clock

type_synonym node_ptr = nat

type_synonym node_heap = "node_ptr \<Rightarrow> node"

definition GOSSIP_INTERVAL_MS :: int where
  "GOSSIP_INTERVAL_MS = 1000"

text \<open>The constructor leaves the clock uninitialised; \<open>uclock\<close> is what the memory held.\<close>

definition node_new :: "settings \<Rightarrow> time_point \<Rightarrow> node_clock \<Rightarrow> u32 \<Rightarrow> uint128 \<Rightarrow> endpoint \<Rightarrow> node" where
  "node_new cfg now uclock i rangeStart ep =
     \<lparr>n_node_id = i, range_start = rangeStart, n_endpoint = ep,
      failure_detector_of = failure_detector_new now (phiFailureThreshold cfg) GOSSIP_INTERVAL_MS,
      operations_handler = None, forced_failure = False, node_clock_of = uclock\<rparr>"

definition is_self :: "settings \<Rightarrow> node \<Rightarrow> bool" where
  "is_self cfg n \<longleftrightarrow> n_node_id n = nodeId cfg"

definition is_alive :: "settings \<Rightarrow> time_point \<Rightarrow> node \<Rightarrow> bool" where
  "is_alive cfg now n =
     (if is_self cfg n then True
      else if forced_failure n then False
      else interpret_at now (failure_detector_of n) = UP)"

definition node_heartbeat :: "time_point \<Rightarrow> node \<Rightarrow> node" where
  "node_heartbeat now n = n\<lparr>failure_detector_of := heartbeat now (failure_detector_of n)\<rparr>"

definition set_failed :: "node \<Rightarrow> node" where
  "set_failed n = n\<lparr>forced_failure := True\<rparr>"

datatype node_error = logic_error string | null_dereference

definition operations :: "settings \<Rightarrow> node \<Rightarrow> node_error + operations_handler" where
  "operations cfg n =
     (case operations_handler n of
        Some h \<Rightarrow> Inr h
      | None \<Rightarrow>
          if is_self cfg n
          then Inl (logic_error ''tried to return non-constructed operations for a local node'')
          else Inl null_dereference)"

definition get_self :: "settings \<Rightarrow> time_point \<Rightarrow> node_clock \<Rightarrow> node option \<Rightarrow> node" where
  "get_self cfg now uclock self =
     (case self of
        Some n \<Rightarrow> n
      | None \<Rightarrow> node_new cfg now uclock (nodeId cfg) (range_setting cfg)
                  (endpoint_host_port (bindAddress cfg) (bindPort cfg)))"

definition init_local_operations :: "node \<Rightarrow> node" where
  "init_local_operations n = n\<lparr>operations_handler := Some local_node_operations\<rparr>"

section \<open>The ring\<close>

datatype ring_error =
    id_conflict_error u32
  | range_conflict_error uint128
  | unavailable_error string

record ring =
  ring_by_range :: "(uint128 \<times> node_ptr) list"
  nodes_by_id :: "(u32 \<times> node_ptr) list"

definition ring_new :: ring where
  "ring_new = \<lparr>ring_by_range = [], nodes_by_id = []\<rparr>"

definition check_no_conflict :: "node_heap \<Rightarrow> node_ptr \<Rightarrow> ring \<Rightarrow> ring_error + unit" where
  "check_no_conflict h p r =
     (if map_of (nodes_by_id r) (n_node_id (h p)) \<noteq> None
      then Inl (id_conflict_error (n_node_id (h p)))
      else if map_of (ring_by_range r) (range_start (h p)) \<noteq> None
      then Inl (range_conflict_error (range_start (h p)))
      else Inr ())"

definition add_node :: "node_heap \<Rightarrow> node_ptr \<Rightarrow> ring \<Rightarrow> ring_error + ring" where
  "add_node h p r =
     andthen (check_no_conflict h p r) (\<lambda>_.
       Inr (r\<lparr>ring_by_range := map_insert uint128_lt (range_start (h p), p) (ring_by_range r),
              nodes_by_id := nodes_by_id r @ [(n_node_id (h p), p)]\<rparr>))"

text \<open>Iterators into \<open>_ring_by_range\<close> are positions; \<open>end()\<close> is the length.\<close>

definition find_secondary_node :: "uint128 \<Rightarrow> ring \<Rightarrow> nat" where
  "find_secondary_node key r =
     (let iter = upper_bound uint128_lt key (ring_by_range r)
      in if iter = length (ring_by_range r) then 0 else iter)"

definition find_primary_node :: "nat \<Rightarrow> ring \<Rightarrow> nat" where
  "find_primary_node secondaryIter r =
     (let secondaryIter = (if secondaryIter = 0 then length (ring_by_range r) else secondaryIter)
      in secondaryIter - 1)"

definition find_tertiary_node :: "nat \<Rightarrow> ring \<Rightarrow> nat" where
  "find_tertiary_node secondaryIter r =
     (let secondaryIter = secondaryIter + 1
      in if secondaryIter = length (ring_by_range r) then 0 else secondaryIter)"

definition find_primary_node_for_key :: "uint128 \<Rightarrow> ring \<Rightarrow> ring_error + node_ptr" where
  "find_primary_node_for_key key r =
     (if ring_by_range r = [] then Inl (unavailable_error ''There are no nodes in the ring'')
      else
        (let secondaryIter = find_secondary_node key r;
             primaryIter = find_primary_node secondaryIter r
         in Inr (snd (ring_by_range r ! primaryIter))))"

definition find_nodes_for_key :: "uint128 \<Rightarrow> ring \<Rightarrow> ring_error + node_ptr list" where
  "find_nodes_for_key key r =
     (if ring_by_range r = [] then Inl (unavailable_error ''There are no nodes in the ring'')
      else
        (let secondaryIter = find_secondary_node key r;
             primaryIter = find_primary_node secondaryIter r;
             tertiaryIter = find_tertiary_node secondaryIter r
         in Inr [snd (ring_by_range r ! primaryIter), snd (ring_by_range r ! secondaryIter),
                 snd (ring_by_range r ! tertiaryIter)]))"

text \<open>
  The quorum: \<open>shuf\<close> is \<open>std::shuffle\<close> with an engine seeded by the time.  The result has
  three places; an empty one holds a null pointer.
\<close>

definition compress_quorum :: "node_ptr option list \<Rightarrow> node_ptr option list" where
  "compress_quorum outNodes =
     (let outNodes = (if outNodes ! 0 = outNodes ! 1 then outNodes[1 := None] else outNodes);
          outNodes = (if outNodes ! 1 = outNodes ! 2 then outNodes[2 := None] else outNodes)
      in if outNodes ! 0 = outNodes ! 2 then outNodes[2 := None] else outNodes)"

definition find_quorum_for_operation ::
  "settings \<Rightarrow> time_point \<Rightarrow> (node_ptr list \<Rightarrow> node_ptr list) \<Rightarrow> node_heap \<Rightarrow> uint128 \<Rightarrow> ring
     \<Rightarrow> ring_error + node_ptr option list" where
  "find_quorum_for_operation cfg now shuf h key r =
     andthen (find_nodes_for_key key r) (\<lambda>nodes.
       let nodes = shuf nodes;
           live = filter (\<lambda>p. is_alive cfg now (h p)) nodes;
           i = length live;
           outNodes = map Some live @ replicate (3 - i) None
       in if i < 2 then Inl (unavailable_error ''No quorum of nodes is up and available for key'')
          else Inr (compress_quorum outNodes))"

section \<open>Invariant\<close>

definition ring_inv :: "node_heap \<Rightarrow> ring \<Rightarrow> bool" where
  "ring_inv h r \<longleftrightarrow>
     sorted_wrt (\<lambda>x y. fst x < fst y) (ring_by_range r) \<and>
     distinct (map fst (nodes_by_id r)) \<and>
     distinct (map snd (nodes_by_id r)) \<and>
     mset (map snd (ring_by_range r)) = mset (map snd (nodes_by_id r)) \<and>
     (\<forall>(k, p)\<in>set (ring_by_range r). range_start (h p) = k) \<and>
     (\<forall>(i, p)\<in>set (nodes_by_id r). n_node_id (h p) = i)"

inductive ring_reach :: "node_heap \<Rightarrow> ring \<Rightarrow> bool" for h where
  ring_reach_new: "ring_reach h ring_new"
| ring_reach_add: "ring_reach h r \<Longrightarrow> add_node h p r = Inr r' \<Longrightarrow> ring_reach h r'"

text \<open>The positions of the three replicas follow one another around the ring.\<close>

definition secondary_index :: "uint128 \<Rightarrow> ring \<Rightarrow> nat" where
  "secondary_index key r = upper_bound uint128_lt key (ring_by_range r) mod length (ring_by_range r)"

text \<open>A heap of nodes and the rings built from some of them, for examples.\<close>

definition sample_settings :: settings where
  "sample_settings = settings_new 2 8481"

definition sample_heap :: node_heap where
  "sample_heap p =
     (let n = node_new sample_settings 0 \<lparr>node_id = of_nat p, generation = 0, clock = 0\<rparr> (of_nat p)
               (U128 (of_nat (100 * p)) 0) (endpoint_host_port ''localhost'' 8481)
      in if p = 3 then set_failed n else n)"

definition sample_ring :: "node_ptr list \<Rightarrow> ring" where
  "sample_ring ps = fold (\<lambda>p r. case add_node sample_heap p r of Inr r' \<Rightarrow> r' | Inl _ \<Rightarrow> r) ps ring_new"

section \<open>Insertion into the ordered map\<close>

lemma map_insert_props:
  fixes e :: "uint128 \<times> 'v"
  assumes "sorted_wrt (\<lambda>x y. fst x < fst y) xs" "fst e \<notin> fst ` set xs"
  shows "sorted_wrt (\<lambda>x y. fst x < fst y) (map_insert uint128_lt e xs) \<and>
     mset (map_insert uint128_lt e xs) = add_mset e (mset xs)"
  using assms
proof (induction xs)
  case (Cons x xs)
  have "fst x \<noteq> fst e" using Cons.prems(2) by auto
  then consider "fst e < fst x" | "fst x < fst e" by fastforce
  then show ?case
  proof cases
    case 1
    moreover from this have "\<forall>y\<in>set xs. fst e < fst y" using Cons.prems(1) by (auto intro: less_trans)
    moreover have "uint128_lt (fst e) (fst x)" using 1 by (simp add: less_uint128_def)
    ultimately show ?thesis using Cons.prems(1) by simp
  next
    case 2
    then have ih: "sorted_wrt (\<lambda>x y. fst x < fst y) (map_insert uint128_lt e xs)"
      "mset (map_insert uint128_lt e xs) = add_mset e (mset xs)"
      using Cons by auto
    from ih(2) have "set (map_insert uint128_lt e xs) = insert e (set xs)"
      by (metis set_mset_add_mset_insert set_mset_mset)
    moreover have "uint128_lt (fst x) (fst e)" "\<not> uint128_lt (fst e) (fst x)"
      using 2 less_not_sym [OF 2] by (simp_all add: less_uint128_def)
    ultimately show ?thesis using 2 ih Cons.prems(1) by (simp add: add_mset_commute)
  qed
qed simp

lemma add_node_Inr:
  "add_node h p r = Inr r' \<longleftrightarrow>
     n_node_id (h p) \<notin> fst ` set (nodes_by_id r) \<and> range_start (h p) \<notin> fst ` set (ring_by_range r) \<and>
     r' = r\<lparr>ring_by_range := map_insert uint128_lt (range_start (h p), p) (ring_by_range r),
            nodes_by_id := nodes_by_id r @ [(n_node_id (h p), p)]\<rparr>"
  by (auto simp: add_node_def check_no_conflict_def andthen_Inr_iff map_of_eq_None_iff split: if_splits)

lemma add_node_inv:
  assumes "ring_inv h r" "add_node h p r = Inr r'"
  shows "ring_inv h r'"
proof -
  note new = assms(2) [unfolded add_node_Inr]
  have ins: "sorted_wrt (\<lambda>x y. fst x < fst y) (ring_by_range r')"
    "mset (ring_by_range r') = add_mset (range_start (h p), p) (mset (ring_by_range r))"
    using map_insert_props [of "ring_by_range r" "(range_start (h p), p)"] assms(1) new by (auto simp: ring_inv_def)
  then have set: "set (ring_by_range r') = insert (range_start (h p), p) (set (ring_by_range r))"
    by (metis set_mset_add_mset_insert set_mset_mset)
  have "p \<notin> snd ` set (nodes_by_id r)"
  proof
    assume "p \<in> snd ` set (nodes_by_id r)"
    then obtain i where i: "(i, p) \<in> set (nodes_by_id r)" by auto
    then have "n_node_id (h p) = i" using assms(1) by (auto simp: ring_inv_def)
    with i new show False by force
  qed
  moreover have "mset (map snd (ring_by_range r')) = mset (map snd (nodes_by_id r'))"
    using assms(1) new ins(2) by (simp add: ring_inv_def)
  ultimately show ?thesis using assms(1) new ins(1) unfolding ring_inv_def set by simp
qed

lemma ring_reach_inv: "ring_reach h r \<Longrightarrow> ring_inv h r"
proof (induction rule: ring_reach.induct)
  case ring_reach_new
  then show ?case by (simp add: ring_inv_def ring_new_def)
qed (blast intro: add_node_inv)

section \<open>Lookup\<close>

text \<open>The keys up to a bound are a prefix of the ring.\<close>

lemma upper_bound_le: "upper_bound lt k xs \<le> length xs"
  by (simp add: upper_bound_def length_takeWhile_le)

lemma upper_bound_prefix:
  fixes xs :: "(uint128 \<times> 'v) list"
  assumes "sorted_wrt (\<lambda>x y. fst x < fst y) xs" "i < length xs"
  shows "i < upper_bound uint128_lt key xs \<longleftrightarrow> fst (xs ! i) \<le> key"
proof -
  let ?P = "\<lambda>e. \<not> uint128_lt key (fst e)"
  have P: "?P e \<longleftrightarrow> fst e \<le> key" for e :: "uint128 \<times> 'v" by (simp add: less_eq_uint128_def)
  let ?n = "length (takeWhile ?P xs)"
  show ?thesis
  proof (cases "i < ?n")
    case True
    then show ?thesis using nth_mem [OF True] by (auto simp: upper_bound_def takeWhile_nth P dest: set_takeWhileD)
  next
    case False
    then have "?n < length xs" using assms(2) by simp
    then have "\<not> fst (xs ! ?n) \<le> key" using nth_length_takeWhile [of ?P xs] P by blast
    moreover have "fst (xs ! ?n) \<le> fst (xs ! i)"
      using assms False by (cases "?n = i") (auto simp: sorted_wrt_iff_nth_less intro: less_imp_le)
    ultimately show ?thesis using False by (auto simp: upper_bound_def)
  qed
qed

lemma replica_indices:
  assumes "ring_by_range r \<noteq> []"
  shows "find_secondary_node key r = secondary_index key r"
    "find_primary_node (secondary_index key r) r =
       (secondary_index key r + length (ring_by_range r) - 1) mod length (ring_by_range r)"
    "find_tertiary_node (secondary_index key r) r = (secondary_index key r + 1) mod length (ring_by_range r)"
proof -
  let ?n = "length (ring_by_range r)"
  have n: "0 < ?n" using assms by simp
  show "find_secondary_node key r = secondary_index key r"
    using upper_bound_le [of uint128_lt key "ring_by_range r"] n
    by (auto simp: find_secondary_node_def Let_def secondary_index_def)
  have s: "secondary_index key r < ?n" using n by (simp add: secondary_index_def)
  then show "find_primary_node (secondary_index key r) r = (secondary_index key r + ?n - 1) mod ?n"
    by (cases "secondary_index key r") (simp_all add: find_primary_node_def Let_def)
  show "find_tertiary_node (secondary_index key r) r = (secondary_index key r + 1) mod ?n"
    using s by (auto simp: find_tertiary_node_def Let_def)
qed

lemma primary_index:
  fixes key
  assumes "ring_inv h r" "ring_by_range r \<noteq> []"
  defines "i \<equiv> find_primary_node (find_secondary_node key r) r"
  shows "i < length (ring_by_range r)"
    "if \<exists>e\<in>set (ring_by_range r). fst e \<le> key
     then fst (ring_by_range r ! i) \<le> key \<and> (\<forall>e\<in>set (ring_by_range r). fst e \<le> key \<longrightarrow> fst e \<le> fst (ring_by_range r ! i))
     else (\<forall>e\<in>set (ring_by_range r). fst e \<le> fst (ring_by_range r ! i))"
proof -
  let ?xs = "ring_by_range r" and ?u = "upper_bound uint128_lt key (ring_by_range r)"
  have srt: "sorted_wrt (\<lambda>x y. fst x < fst y) ?xs" using assms(1) by (simp add: ring_inv_def)
  have i: "i = (if ?u = 0 then length ?xs - 1 else ?u - 1)"
    using upper_bound_le [of uint128_lt key ?xs]
    by (auto simp: i_def find_primary_node_def find_secondary_node_def Let_def)
  show il: "i < length ?xs" using assms(2) upper_bound_le [of uint128_lt key ?xs] by (auto simp: i)
  have mono: "fst (?xs ! j) \<le> fst (?xs ! k)" if "j \<le> k" "k < length ?xs" for j k
    using that srt by (cases "j = k") (auto simp: sorted_wrt_iff_nth_less intro: less_imp_le)
  have ub: "j < ?u \<longleftrightarrow> fst (?xs ! j) \<le> key" if "j < length ?xs" for j
    using upper_bound_prefix [OF srt that] .
  show "if \<exists>e\<in>set ?xs. fst e \<le> key
     then fst (?xs ! i) \<le> key \<and> (\<forall>e\<in>set ?xs. fst e \<le> key \<longrightarrow> fst e \<le> fst (?xs ! i))
     else (\<forall>e\<in>set ?xs. fst e \<le> fst (?xs ! i))"
  proof (cases "?u = 0")
    case True
    then have "\<not> (\<exists>e\<in>set ?xs. fst e \<le> key)" using ub by (metis in_set_conv_nth not_less_zero)
    moreover have "\<forall>e\<in>set ?xs. fst e \<le> fst (?xs ! i)"
    proof
      fix e assume "e \<in> set ?xs"
      then obtain j where "j < length ?xs" "e = ?xs ! j" by (auto simp: in_set_conv_nth)
      then show "fst e \<le> fst (?xs ! i)" using mono [of j i] il True by (simp add: i)
    qed
    ultimately show ?thesis by simp
  next
    case False
    then have "fst (?xs ! i) \<le> key" using ub [OF il] by (simp add: i)
    moreover have "\<forall>e\<in>set ?xs. fst e \<le> key \<longrightarrow> fst e \<le> fst (?xs ! i)"
    proof (intro ballI impI)
      fix e assume "e \<in> set ?xs" "fst e \<le> key"
      then obtain j where j: "j < length ?xs" "e = ?xs ! j" by (auto simp: in_set_conv_nth)
      with \<open>fst e \<le> key\<close> have "j < ?u" using ub by blast
      then have "j \<le> i" using False by (simp add: i)
      then show "fst e \<le> fst (?xs ! i)" using mono il j(2) by blast
    qed
    ultimately show ?thesis using il nth_mem by auto
  qed
qed

lemma find_nodes_shape:
  assumes "ring_by_range r \<noteq> []"
  shows "find_nodes_for_key key r =
     Inr (map (\<lambda>d. snd (ring_by_range r ! ((secondary_index key r + length (ring_by_range r) - 1 + d) mod length (ring_by_range r))))
            [0, 1, 2])"
proof -
  let ?n = "length (ring_by_range r)" and ?s = "secondary_index key r"
  have n: "0 < ?n" using assms by simp
  then have s: "?s < ?n" by (simp add: secondary_index_def)
  have e: "?s + ?n - 1 + 1 = ?s + ?n" "?s + ?n - 1 + 2 = ?s + 1 + ?n" using n by simp_all
  have "(?s + ?n - 1 + 1) mod ?n = ?s" "(?s + ?n - 1 + 2) mod ?n = (?s + 1) mod ?n"
    unfolding e mod_add_self2 using s by simp_all
  then show ?thesis using assms replica_indices [OF assms] by (simp add: find_nodes_for_key_def Let_def)
qed

lemma consecutive_distinct:
  assumes "3 \<le> (n :: nat)"
  shows "distinct (map (\<lambda>d. (a + d) mod n) [0, 1, 2])"
proof -
  have "(a + d) mod n \<noteq> (a + e) mod n" if "d < e" "e < 3" for d e
  proof
    assume "(a + d) mod n = (a + e) mod n"
    then have "n dvd (a + e) - (a + d)" using that(1) mod_eq_dvd_iff_nat [of "a + d" "a + e" n] by simp
    then show False using that assms by (auto dest: dvd_imp_le)
  qed
  from this [of 0 1] this [of 0 2] this [of 1 2] show ?thesis by simp
qed

lemma ring_ptrs_distinct: "ring_inv h r \<Longrightarrow> distinct (map snd (ring_by_range r))"
  unfolding ring_inv_def by (metis mset_eq_imp_distinct_iff)

lemma find_nodes_distinct:
  assumes "ring_inv h r" "3 \<le> length (ring_by_range r)" "find_nodes_for_key key r = Inr ps"
  shows "distinct ps"
proof -
  let ?n = "length (ring_by_range r)" and ?a = "secondary_index key r + length (ring_by_range r) - 1"
  let ?is = "map (\<lambda>d. (?a + d) mod ?n) [0, 1, 2]"
  have ne: "ring_by_range r \<noteq> []" using assms(2) by auto
  have "ps = map (\<lambda>i. map snd (ring_by_range r) ! i) ?is"
    using assms(3) find_nodes_shape [OF ne, of key] mod_less_divisor [of ?n] ne by (simp add: nth_map)
  moreover have "inj_on (\<lambda>i. map snd (ring_by_range r) ! i) (set ?is)"
    using ring_ptrs_distinct [OF assms(1)] mod_less_divisor [of ?n] ne by (intro inj_on_nth) auto
  ultimately show ?thesis using consecutive_distinct [OF assms(2), of ?a] by (simp only: distinct_map)
qed

section \<open>The quorum\<close>

lemma find_nodes_length: "find_nodes_for_key key r = Inr ps \<Longrightarrow> length ps = 3"
  by (auto simp: find_nodes_for_key_def Let_def split: if_splits)

lemma compress_set:
  assumes "length out = 3" "out ! 0 \<noteq> None"
  shows "set (compress_quorum out) - {None} = set out - {None} \<and> length (compress_quorum out) = 3 \<and>
     compress_quorum out ! 0 = out ! 0 \<and>
     distinct (filter (\<lambda>p. p \<noteq> None) (compress_quorum out))"
proof -
  obtain a b c where "out = [a, b, c]" using assms(1)
    by (metis (no_types, lifting) length_0_conv length_Suc_conv numeral_3_eq_3)
  then show ?thesis using assms(2) by (auto simp: compress_quorum_def Let_def)
qed

lemma quorum_Inr:
  assumes "find_quorum_for_operation cfg now shuf h key r = Inr out" "find_nodes_for_key key r = Inr ps"
    "mset (shuf ps) = mset ps"
  shows "length out = 3 \<and> out ! 0 \<noteq> None \<and>
     set out - {None} = Some ` {p \<in> set ps. is_alive cfg now (h p)} \<and>
     distinct (filter (\<lambda>p. p \<noteq> None) out)"
proof -
  let ?live = "filter (\<lambda>p. is_alive cfg now (h p)) (shuf ps)"
  let ?out = "map Some ?live @ replicate (3 - length ?live) None"
  have len: "2 \<le> length ?live" and out: "out = compress_quorum ?out"
    using assms(1,2) by (auto simp: find_quorum_for_operation_def Let_def split: if_splits)
  have "length ?live \<le> 3"
    using find_nodes_length [OF assms(2)] assms(3) by (metis length_filter_le size_mset)
  then have 3: "length ?out = 3" by simp
  have "?live \<noteq> []" using len by (metis list.size(3) not_numeral_le_zero)
  then have hd: "?out ! 0 = Some (?live ! 0)" by (simp add: nth_append)
  have "set (shuf ps) = set ps" using assms(3) by (metis set_mset_mset)
  then have "set ?out - {None} = Some ` {p \<in> set ps. is_alive cfg now (h p)}" by auto
  then show ?thesis using compress_set [OF 3] hd out by simp
qed

section \<open>Properties\<close>

lemma fold_ring_reach: "ring_reach sample_heap r \<Longrightarrow>
   ring_reach sample_heap (fold (\<lambda>p r. case add_node sample_heap p r of Inr r' \<Rightarrow> r' | Inl _ \<Rightarrow> r) ps r)"
  by (induction ps arbitrary: r) (auto split: sum.splits intro: ring_reach_add)

lemma sample_reach: "ring_reach sample_heap (sample_ring ps)"
  unfolding sample_ring_def by (intro fold_ring_reach ring_reach_new)

lemma sample_ring3:
  "ring_by_range (sample_ring [4, 2, 3]) = [(U128 200 0, 2), (U128 300 0, 3), (U128 400 0, 4)]"
  by (simp add: sample_ring_def add_node_def check_no_conflict_def ring_new_def sample_heap_def Let_def
      node_new_def set_failed_def uint128_lt_def)

lemma sample_ring2: "ring_by_range (sample_ring [2, 3]) = [(U128 200 0, 2), (U128 300 0, 3)]"
  by (simp add: sample_ring_def add_node_def check_no_conflict_def ring_new_def sample_heap_def Let_def
      node_new_def set_failed_def uint128_lt_def)

text \<open>
  C5: every ring built by \<open>add_node\<close> is strictly ordered by range start, has no two nodes
  with one id, and holds the same nodes in both of its maps under their own keys.
\<close>

theorem ring_reachable_inv:
  assumes "ring_reach h r"
  shows "ring_inv h r"
  using assms by (rule ring_reach_inv)

theorem ring_reachable_inv_witness: "ring_inv sample_heap (sample_ring [4, 2, 3])"
  by (rule ring_reachable_inv) (rule sample_reach)





text \<open>
  C8: a quorum that is handed out consists of exactly the live replicas of the key, each
  once, with a node in the first place, whatever order the shuffle chose.
\<close>

theorem quorum_is_live_replicas:
  assumes "find_nodes_for_key key r = Inr ps" "mset (shuf ps) = mset ps"
    "find_quorum_for_operation cfg now shuf h key r = Inr out"
  shows "length out = 3 \<and> out ! 0 \<noteq> None \<and>
     set out - {None} = Some ` {p \<in> set ps. is_alive cfg now (h p)} \<and>
     distinct (filter (\<lambda>p. p \<noteq> None) out)"
  using quorum_Inr [OF assms(3,1,2)] .

lemma sample_quorum:
  "find_nodes_for_key (U128 250 0) (sample_ring [2, 3]) = Inr [2, 3, 2]"
  "find_quorum_for_operation sample_settings 0 id sample_heap (U128 250 0) (sample_ring [2, 3]) = Inr [Some 2, None, None]"
  by (simp_all add: find_quorum_for_operation_def find_nodes_for_key_def Let_def find_secondary_node_def find_primary_node_def
      find_tertiary_node_def upper_bound_def sample_ring2 uint128_lt_def is_alive_def is_self_def sample_heap_def
      node_new_def set_failed_def sample_settings_def settings_new_def compress_quorum_def)

theorem quorum_is_live_replicas_witness:
  "length [Some 2, None, None :: node_ptr option] = 3 \<and>
   set [Some 2, None, None] - {None} = Some ` {p \<in> set [2, 3, 2]. is_alive sample_settings 0 (sample_heap p)}"
  using quorum_is_live_replicas [OF sample_quorum(1), of id, OF _ sample_quorum(2)] by auto

text \<open>
  In a ring of two nodes the primary is also the tertiary and is counted twice: a
  quorum of the primary alone is handed out although the ring knows the other node to be
  down.
\<close>

lemma quorum_of_one_with_dead_peer:
  "\<exists>cfg h r key. ring_reach h r \<and> length (ring_by_range r) = 2 \<and>
     find_quorum_for_operation cfg 0 id h key r = Inr [Some 2, None, None] \<and>
     (\<exists>p. p \<in> snd ` set (ring_by_range r) \<and> \<not> is_alive cfg 0 (h p))"
  by (intro exI [of _ sample_settings] exI [of _ sample_heap] exI [of _ "sample_ring [2, 3]"] exI [of _ "U128 250 0"]
      exI [of _ 3] conjI sample_reach sample_quorum)
    (simp_all add: sample_ring2 is_alive_def is_self_def sample_heap_def node_new_def set_failed_def
      sample_settings_def settings_new_def Let_def)

end
