(* ===== verification/Net_Result.thy ===== *)
theory Net_Result
  imports Sopmq_Prelude
begin

text \<open>
  \<open>shared/src/network_operation_result.{h,cpp}\<close> and \<open>shared/src/network_error.{h,cpp}\<close>:
  the value that every network callback receives.  An error code of the socket library is
  \<open>None\<close> when it converts to \<open>false\<close>, and otherwise carries the text of its \<open>message()\<close>.
\<close>

type_synonym error_code = "string option"

definition error_code_message :: "error_code \<Rightarrow> string" where
  "error_code_message e = (case e of Some m \<Rightarrow> m | None \<Rightarrow> ''Success'')"

datatype network_error = network_error (what: string)

definition network_error_default :: network_error where
  "network_error_default = network_error ''''"

definition network_error_of_code :: "error_code \<Rightarrow> network_error" where
  "network_error_of_code e = network_error (error_code_message e)"

datatype error_type = ET_NONE | ET_TIMEOUT | ET_NETWORK | ET_PARSE | ET_INVALID_TYPE | ET_TOO_LARGE

record network_operation_result =
  get_error_type :: error_type
  get_error :: network_error

definition net_result :: "error_type \<Rightarrow> network_error \<Rightarrow> network_operation_result" where
  "net_result et error = \<lparr>get_error_type = et, get_error = error\<rparr>"

definition net_result_of_type :: "error_type \<Rightarrow> network_operation_result" where
  "net_result_of_type et = net_result et network_error_default"

definition success :: network_operation_result where
  "success = net_result ET_NONE network_error_default"

definition from_error_code :: "error_code \<Rightarrow> network_operation_result" where
  "from_error_code e = net_result ET_NETWORK (network_error_of_code e)"

definition from_error_code_info :: "string \<Rightarrow> error_code \<Rightarrow> network_operation_result" where
  "from_error_code_info info e = net_result ET_NETWORK (network_error (info @ '': '' @ error_code_message e))"

definition was_successful :: "network_operation_result \<Rightarrow> bool" where
  "was_successful r \<longleftrightarrow> get_error_type r = ET_NONE"

definition rethrow :: "network_operation_result \<Rightarrow> network_error + unit" where
  "rethrow r = (if get_error_type r = ET_NONE then Inr () else Inl (get_error r))"

lemma was_successful_simps [simp, wire_simps]:
  "was_successful success"
  "\<not> was_successful (from_error_code e)"
  "\<not> was_successful (from_error_code_info i e)"
  "was_successful (net_result et err) \<longleftrightarrow> et = ET_NONE"
  by (simp_all add: was_successful_def success_def from_error_code_def from_error_code_info_def net_result_def)

lemma rethrow_iff: "rethrow r = Inr () \<longleftrightarrow> was_successful r"
  by (simp add: rethrow_def was_successful_def)

end
