(* ===== verification/Messages.thy ===== *)
theory Messages
  imports Clocks
begin

text \<open>
  The network messages of \<open>messages/*.proto\<close>, the numbering of their types in
  \<open>messages/cpp/message_types.h\<close>, and the construction of a message in reply to another
  (\<open>messageutil::build_id\<close>, \<open>messageutil::make_message\<close>).  A message is a record of its
  fields; a field that has not been set has the default value the message language gives it
  (zero, the empty string, the first enumerator), optional fields are options.
\<close>

section \<open>Fields\<close>

record Identifier =
  ident_id :: u32
  in_reply_to :: u32

type_synonym VectorClock = "NodeClock list"

record AnswerChallengeMessage =
  ac_identity :: Identifier
  uname_hash :: string
  challenge_response :: string

record AuthAckMessage =
  aa_identity :: Identifier
  authorized :: bool

record ChallengeResponseMessage =
  cr_identity :: Identifier
  challenge :: string

datatype DownloadType = DT_NONE | CLAIMSTORED | PEEKSTORED
datatype InterceptType = PEEK | CLAIM

record ConsumeFromQueueMessage =
  cq_identity :: Identifier
  cq_queue_id :: string
  download_type :: DownloadType
  max_lookback_days :: "u32 option"
  intercept_type :: InterceptType

datatype ConsumeStatus = CS_OK | CS_NOTAUTH | CS_UNAVAILABLE

record ConsumeResponseMessage =
  cs_identity :: Identifier
  cs_status :: ConsumeStatus

datatype GetChallengeType = CLIENT | SERVER

record GetChallengeMessage =
  gc_identity :: Identifier
  gc_type :: GetChallengeType

record GossipNodeData =
  gn_clock :: NodeClock

record GossipMessage =
  gm_identity :: Identifier
  gm_data :: "GossipNodeData list"

record PublishMessage =
  pm_identity :: Identifier
  pm_message_id :: string
  pm_queue_id :: string
  pm_flags :: "u32 option"
  pm_ttl :: u32
  pm_content :: string

record ProxyPublishMessage =
  pp_identity :: Identifier
  client_message :: PublishMessage

datatype ProxyPublishStatus = PP_NOTAUTH | PP_NOTHERE | PP_QUEUED

record ProxyPublishResponseMessage =
  ppr_identity :: Identifier
  ppr_status :: ProxyPublishStatus
  ppr_clock :: VectorClock

datatype PublishStatus = PIPED | STORED | DROPPED | PS_NOTAUTH | PS_UNAVAILABLE

record PublishResponseMessage =
  pr_identity :: Identifier
  pr_status :: PublishStatus

record StampMessage =
  sm_identity :: Identifier
  sm_message_id :: string
  sm_clock :: VectorClock

section \<open>Messages and their types\<close>

datatype message =
    AnswerChallenge AnswerChallengeMessage
  | AuthAck AuthAckMessage
  | ChallengeResponse ChallengeResponseMessage
  | ConsumeFromQueue ConsumeFromQueueMessage
  | ConsumeResponse ConsumeResponseMessage
  | GetChallenge GetChallengeMessage
  | Gossip GossipMessage
  | ProxyPublish ProxyPublishMessage
  | ProxyPublishResponse ProxyPublishResponseMessage
  | Publish PublishMessage
  | PublishResponse PublishResponseMessage
  | Stamp StampMessage

definition message_identity :: "message \<Rightarrow> Identifier" where
  "message_identity m =
     (case m of
        AnswerChallenge x \<Rightarrow> ac_identity x
      | AuthAck x \<Rightarrow> aa_identity x
      | ChallengeResponse x \<Rightarrow> cr_identity x
      | ConsumeFromQueue x \<Rightarrow> cq_identity x
      | ConsumeResponse x \<Rightarrow> cs_identity x
      | GetChallenge x \<Rightarrow> gc_identity x
      | Gossip x \<Rightarrow> gm_identity x
      | ProxyPublish x \<Rightarrow> pp_identity x
      | ProxyPublishResponse x \<Rightarrow> ppr_identity x
      | Publish x \<Rightarrow> pm_identity x
      | PublishResponse x \<Rightarrow> pr_identity x
      | Stamp x \<Rightarrow> sm_identity x)"

datatype message_type =
    MT_INVALID
  | MT_GET_CHALLENGE
  | MT_CHALLENGE_RESPONSE
  | MT_ANSWER_CHALLENGE
  | MT_AUTH_ACK
  | MT_PUBLISH
  | MT_PUBLISH_RESPONSE
  | MT_CONSUME_FROM_QUEUE
  | MT_CONSUME_RESPONSE
  | MT_GOSSIP
  | MT_PROXY_PUBLISH
  | MT_PROXY_PUBLISH_RESPONSE
  | MT_STAMP
  | MT_INVALID_OUT_OF_RANGE

definition message_types :: "message_type list" where
  "message_types =
     [MT_INVALID, MT_GET_CHALLENGE, MT_CHALLENGE_RESPONSE, MT_ANSWER_CHALLENGE, MT_AUTH_ACK, MT_PUBLISH,
      MT_PUBLISH_RESPONSE, MT_CONSUME_FROM_QUEUE, MT_CONSUME_RESPONSE, MT_GOSSIP, MT_PROXY_PUBLISH,
      MT_PROXY_PUBLISH_RESPONSE, MT_STAMP, MT_INVALID_OUT_OF_RANGE]"

text \<open>The value of an enumerator, and the enumerator of a value in range.\<close>

fun message_type_code :: "message_type \<Rightarrow> u16" where
  "message_type_code MT_INVALID = 0"
| "message_type_code MT_GET_CHALLENGE = 1"
| "message_type_code MT_CHALLENGE_RESPONSE = 2"
| "message_type_code MT_ANSWER_CHALLENGE = 3"
| "message_type_code MT_AUTH_ACK = 4"
| "message_type_code MT_PUBLISH = 5"
| "message_type_code MT_PUBLISH_RESPONSE = 6"
| "message_type_code MT_CONSUME_FROM_QUEUE = 7"
| "message_type_code MT_CONSUME_RESPONSE = 8"
| "message_type_code MT_GOSSIP = 9"
| "message_type_code MT_PROXY_PUBLISH = 10"
| "message_type_code MT_PROXY_PUBLISH_RESPONSE = 11"
| "message_type_code MT_STAMP = 12"
| "message_type_code MT_INVALID_OUT_OF_RANGE = 13"

definition message_type_of_code :: "u16 \<Rightarrow> message_type" where
  "message_type_of_code c = message_types ! unat c"

text \<open>The type number the program sends with each class of message.\<close>

fun type_of_message :: "message \<Rightarrow> message_type" where
  "type_of_message (AnswerChallenge _) = MT_ANSWER_CHALLENGE"
| "type_of_message (AuthAck _) = MT_AUTH_ACK"
| "type_of_message (ChallengeResponse _) = MT_CHALLENGE_RESPONSE"
| "type_of_message (ConsumeFromQueue _) = MT_CONSUME_FROM_QUEUE"
| "type_of_message (ConsumeResponse _) = MT_CONSUME_RESPONSE"
| "type_of_message (GetChallenge _) = MT_GET_CHALLENGE"
| "type_of_message (Gossip _) = MT_GOSSIP"
| "type_of_message (ProxyPublish _) = MT_PROXY_PUBLISH"
| "type_of_message (ProxyPublishResponse _) = MT_PROXY_PUBLISH_RESPONSE"
| "type_of_message (Publish _) = MT_PUBLISH"
| "type_of_message (PublishResponse _) = MT_PUBLISH_RESPONSE"
| "type_of_message (Stamp _) = MT_STAMP"

section \<open>Building messages\<close>

definition build_id :: "u32 \<Rightarrow> u32 \<Rightarrow> Identifier" where
  "build_id i inReplyTo = \<lparr>ident_id = i, in_reply_to = inReplyTo\<rparr>"

text \<open>\<open>make_message<T>\<close> for the message classes the program builds.\<close>

definition make_AnswerChallengeMessage :: "u32 \<Rightarrow> u32 \<Rightarrow> AnswerChallengeMessage" where
  "make_AnswerChallengeMessage i r = \<lparr>ac_identity = build_id i r, uname_hash = '''', challenge_response = ''''\<rparr>"

definition make_AuthAckMessage :: "u32 \<Rightarrow> u32 \<Rightarrow> AuthAckMessage" where
  "make_AuthAckMessage i r = \<lparr>aa_identity = build_id i r, authorized = False\<rparr>"

definition make_ChallengeResponseMessage :: "u32 \<Rightarrow> u32 \<Rightarrow> ChallengeResponseMessage" where
  "make_ChallengeResponseMessage i r = \<lparr>cr_identity = build_id i r, challenge = ''''\<rparr>"

definition make_GetChallengeMessage :: "u32 \<Rightarrow> u32 \<Rightarrow> GetChallengeMessage" where
  "make_GetChallengeMessage i r = \<lparr>gc_identity = build_id i r, gc_type = CLIENT\<rparr>"

definition make_PublishMessage :: "u32 \<Rightarrow> u32 \<Rightarrow> PublishMessage" where
  "make_PublishMessage i r =
     \<lparr>pm_identity = build_id i r, pm_message_id = '''', pm_queue_id = '''', pm_flags = None, pm_ttl = 0,
      pm_content = ''''\<rparr>"

definition make_PublishResponseMessage :: "u32 \<Rightarrow> u32 \<Rightarrow> PublishResponseMessage" where
  "make_PublishResponseMessage i r = \<lparr>pr_identity = build_id i r, pr_status = PIPED\<rparr>"

definition make_ProxyPublishResponseMessage :: "u32 \<Rightarrow> u32 \<Rightarrow> ProxyPublishResponseMessage" where
  "make_ProxyPublishResponseMessage i r = \<lparr>ppr_identity = build_id i r, ppr_status = PP_NOTAUTH, ppr_clock = []\<rparr>"

section \<open>Facts\<close>

lemma message_type_of_code_code [simp, wire_simps]: "message_type_of_code (message_type_code t) = t"
  by (cases t) (simp_all add: message_type_of_code_def message_types_def)

lemma message_type_code_inj: "message_type_code s = message_type_code t \<longleftrightarrow> s = t"
  by (metis message_type_of_code_code)

lemma type_of_message_valid [simp, wire_simps]:
  "0 < message_type_code (type_of_message m)" "message_type_code (type_of_message m) < 13"
  by (cases m; simp add: word_less_nat_alt)+

end
