(* ===== verification/Dispatcher.thy ===== *)
theory Dispatcher
  imports Messages Net_Result
begin

text \<open>
  \<open>shared/src/message_dispatcher.{h,cpp}\<close>: the tables of handlers that connect replies to
  the requests that wait for them.  The twelve tables and the twelve overloads of
  \<open>set_handler\<close> and \<open>dispatch\<close> that the sources generate, one for each class of message,
  are one table and one operation indexed by the type of the message.  A handler is an
  element of \<open>'h\<close>, an empty \<open>std::function\<close> is \<open>None\<close>; an operation returns the calls it
  makes, in order.  A call of an empty function throws \<open>std::bad_function_call\<close>.
\<close>

section \<open>Definitions\<close>

datatype 'h call =
    Handler_Call 'h network_operation_result "message option"
  | Unhandled_Call 'h message
  | Bad_Function_Call

type_synonym 'h handler_table = "(u32 \<times> 'h option) list"

record 'h message_dispatcher =
  unhandledHandler :: "'h option"
  handlers :: "message_type \<Rightarrow> 'h handler_table"

definition message_dispatcher_new :: "'h option \<Rightarrow> 'h message_dispatcher" where
  "message_dispatcher_new unhandled = \<lparr>unhandledHandler = unhandled, handlers = \<lambda>_. []\<rparr>"

definition set_unhandled_handler :: "'h option \<Rightarrow> 'h message_dispatcher \<Rightarrow> 'h message_dispatcher" where
  "set_unhandled_handler unhandled d = d\<lparr>unhandledHandler := unhandled\<rparr>"

text \<open>The order in which the twelve loops of \<open>cancel_all_with_error\<close> visit the tables.\<close>

definition cancel_order :: "message_type list" where
  "cancel_order =
     [MT_ANSWER_CHALLENGE, MT_AUTH_ACK, MT_CHALLENGE_RESPONSE, MT_CONSUME_FROM_QUEUE, MT_CONSUME_RESPONSE,
      MT_GET_CHALLENGE, MT_GOSSIP, MT_PROXY_PUBLISH, MT_PROXY_PUBLISH_RESPONSE, MT_PUBLISH,
      MT_PUBLISH_RESPONSE, MT_STAMP]"

fun cancel_loop :: "network_operation_result \<Rightarrow> 'h handler_table \<Rightarrow> 'h call list" where
  "cancel_loop result [] = []"
| "cancel_loop result ((_, Some handler) # rest) = Handler_Call handler result None # cancel_loop result rest"
| "cancel_loop result ((_, None) # rest) = [Bad_Function_Call]"

definition cancel_all_with_error :: "network_operation_result \<Rightarrow> 'h message_dispatcher \<Rightarrow> 'h call list" where
  "cancel_all_with_error result d = cancel_loop result (concat (map (handlers d) cancel_order))"

definition set_handler :: "message_type \<Rightarrow> 'h option \<Rightarrow> 'h message_dispatcher \<Rightarrow> 'h message_dispatcher" where
  "set_handler t handler d =
     (if handler \<noteq> None
      then d\<lparr>handlers := (handlers d)(t := umap_assign 0 handler (handlers d t))\<rparr>
      else d\<lparr>handlers := (handlers d)(t := umap_erase 0 (handlers d t))\<rparr>)"

definition set_reply_handler :: "message_type \<Rightarrow> 'h option \<Rightarrow> u32 \<Rightarrow> 'h message_dispatcher \<Rightarrow> 'h message_dispatcher" where
  "set_reply_handler t handler inReplyTo d =
     d\<lparr>handlers := (handlers d)(t := umap_assign inReplyTo handler (handlers d t))\<rparr>"

definition invoke :: "'h option \<Rightarrow> ('h \<Rightarrow> 'h call) \<Rightarrow> 'h call" where
  "invoke f k = (case f of Some h \<Rightarrow> k h | None \<Rightarrow> Bad_Function_Call)"

text \<open>The table is a by-value parameter: the erasure acts on the copy, which is returned here.\<close>

definition do_dispatch ::
  "'h option \<Rightarrow> 'h handler_table \<Rightarrow> network_operation_result \<Rightarrow> message \<Rightarrow> 'h call \<times> 'h handler_table" where
  "do_dispatch unhandled h r m =
     (let i = in_reply_to (message_identity m)
      in case map_of h i of
           Some f \<Rightarrow>
             (case invoke f (\<lambda>f. Handler_Call f r (Some m)) of
                Bad_Function_Call \<Rightarrow> (Bad_Function_Call, h)
              | c \<Rightarrow> (c, if i \<noteq> 0 then umap_erase i h else h))
         | None \<Rightarrow> (invoke unhandled (\<lambda>f. Unhandled_Call f m), h))"

definition dispatch ::
  "network_operation_result \<Rightarrow> message \<Rightarrow> 'h message_dispatcher \<Rightarrow> 'h call \<times> 'h message_dispatcher" where
  "dispatch result m d =
     (let (c, copy) = do_dispatch (unhandledHandler d) (handlers d (type_of_message m)) result m in (c, d))"

section \<open>What a dispatcher promises\<close>

text \<open>
  The abstract view: a partial function from message type and reply identifier, changed by
  the registrations.
\<close>

datatype 'h registration =
    Register message_type "'h option"
  | Register_Reply message_type "'h option" u32

fun register :: "'h registration \<Rightarrow> 'h message_dispatcher \<Rightarrow> 'h message_dispatcher" where
  "register (Register t h) d = set_handler t h d"
| "register (Register_Reply t h i) d = set_reply_handler t h i d"

definition dispatcher_abs :: "'h message_dispatcher \<Rightarrow> message_type \<times> u32 \<Rightarrow> 'h option option" where
  "dispatcher_abs d = (\<lambda>(t, i). map_of (handlers d t) i)"

fun register_abs ::
  "'h registration \<Rightarrow> (message_type \<times> u32 \<Rightarrow> 'h option option) \<Rightarrow> message_type \<times> u32 \<Rightarrow> 'h option option" where
  "register_abs (Register t h) a = a((t, 0) := (if h = None then None else Some h))"
| "register_abs (Register_Reply t h i) a = a((t, i) \<mapsto> h)"

section \<open>Lemmas\<close>

lemma dispatcher_abs_new [simp]: "dispatcher_abs (message_dispatcher_new u) = (\<lambda>_. None)"
  by (auto simp: dispatcher_abs_def message_dispatcher_new_def)

lemma unhandled_new [simp]: "unhandledHandler (message_dispatcher_new u) = u"
  by (simp add: message_dispatcher_new_def)

lemma register_refines: "dispatcher_abs (register x d) = register_abs x (dispatcher_abs d)"
  by (cases x) (auto simp: dispatcher_abs_def set_handler_def set_reply_handler_def map_of_umap_assign
      map_of_umap_erase fun_eq_iff)

lemma fold_register_refines: "dispatcher_abs (fold register xs d) = fold register_abs xs (dispatcher_abs d)"
  by (induction xs arbitrary: d) (simp_all add: register_refines)

lemma unhandled_register [simp]: "unhandledHandler (fold register xs d) = unhandledHandler d"
proof (induction xs arbitrary: d)
  case (Cons x xs)
  then show ?case by (cases x) (simp_all add: set_handler_def set_reply_handler_def)
qed simp

lemma dispatch_abs:
  "dispatch r m d =
     ((case dispatcher_abs d (type_of_message m, in_reply_to (message_identity m)) of
         Some f \<Rightarrow> invoke f (\<lambda>f. Handler_Call f r (Some m))
       | None \<Rightarrow> invoke (unhandledHandler d) (\<lambda>f. Unhandled_Call f m)), d)"
  by (auto simp: dispatch_def do_dispatch_def dispatcher_abs_def Let_def invoke_def split: option.splits)

lemma cancel_loop_total:
  "\<forall>e\<in>set xs. snd e \<noteq> None \<Longrightarrow> cancel_loop r xs = map (\<lambda>e. Handler_Call (the (snd e)) r None) xs"
  by (induction r xs rule: cancel_loop.induct) auto

text \<open>
  Without empty functions, cancelling calls exactly the handlers that are registered, each
  with the error and without a message.
\<close>

lemma cancel_reaches_all:
  assumes "\<And>t i f. dispatcher_abs d (t, i) = Some f \<Longrightarrow> f \<noteq> None" "\<And>t. distinct (map fst (handlers d t))"
  shows "set (cancel_all_with_error r d) =
     {Handler_Call h r None |h t i. t \<in> set cancel_order \<and> dispatcher_abs d (t, i) = Some (Some h)}"
proof -
  have some: "(i, f) \<in> set (handlers d t) \<longleftrightarrow> dispatcher_abs d (t, i) = Some f" for t i f
    using assms(2) [of t] by (simp add: dispatcher_abs_def)
  then have "\<forall>e\<in>set (concat (map (handlers d) cancel_order)). snd e \<noteq> None"
    using assms(1) by auto
  then have "set (cancel_all_with_error r d) =
      (\<lambda>e. Handler_Call (the (snd e)) r None) ` set (concat (map (handlers d) cancel_order))"
    unfolding cancel_all_with_error_def by (simp only: cancel_loop_total set_map)
  also have "\<dots> = {Handler_Call h r None |h t i. t \<in> set cancel_order \<and> dispatcher_abs d (t, i) = Some (Some h)}"
  proof (intro set_eqI iffI)
    fix c
    assume "c \<in> (\<lambda>e. Handler_Call (the (snd e)) r None) ` set (concat (map (handlers d) cancel_order))"
    then obtain t i f where "t \<in> set cancel_order" "(i, f) \<in> set (handlers d t)" "c = Handler_Call (the f) r None"
      by auto
    then show "c \<in> {Handler_Call h r None |h t i. t \<in> set cancel_order \<and> dispatcher_abs d (t, i) = Some (Some h)}"
      using some assms(1) by (metis (mono_tags, lifting) mem_Collect_eq option.collapse)
  next
    fix c
    assume "c \<in> {Handler_Call h r None |h t i. t \<in> set cancel_order \<and> dispatcher_abs d (t, i) = Some (Some h)}"
    then obtain h t i where "t \<in> set cancel_order" "(i, Some h) \<in> set (handlers d t)" "c = Handler_Call h r None"
      by (auto simp: some)
    then show "c \<in> (\<lambda>e. Handler_Call (the (snd e)) r None) ` set (concat (map (handlers d) cancel_order))"
      by (auto simp: image_iff intro!: bexI [of _ "(i, Some h)"])
  qed
  finally show ?thesis .
qed

lemma set_cancel_order: "type_of_message m \<in> set cancel_order"
  by (cases m) (simp_all add: cancel_order_def)

lemma distinct_umap_assign: "distinct (map fst xs) \<Longrightarrow> distinct (map fst (umap_assign k v xs))"
  by (auto simp: umap_assign_def umap_insert_def map_of_eq_None_iff)

section \<open>Properties\<close>

text \<open>
  C7: a dispatcher refines a partial function from message type and reply identifier: after
  any sequence of registrations, a message goes to the handler registered last for its type
  and the identifier it replies to, and to the unhandled handler when there is none.
\<close>

theorem dispatch_refines:
  "fst (dispatch r m (fold register xs (message_dispatcher_new u))) =
     (case fold register_abs xs (\<lambda>_. None) (type_of_message m, in_reply_to (message_identity m)) of
        Some f \<Rightarrow> invoke f (\<lambda>f. Handler_Call f r (Some m))
      | None \<Rightarrow> invoke u (\<lambda>f. Unhandled_Call f m))"
  by (simp add: dispatch_abs fold_register_refines split: option.split)

end
