(* ===== verification/Wire.thy ===== *)
theory Wire
  imports Dispatcher
begin

text \<open>
  \<open>shared/src/netutil.cpp\<close> and \<open>shared/src/messageutil.{h,cpp}\<close>: framing of messages on a
  connection.  A frame is the type as a big-endian 16-bit number, the size as a big-endian
  32-bit number, and the serialised message.  The socket library and the message library
  are parameters: \<open>rd s n\<close> completes an \<open>async_read\<close> of \<open>n\<close> bytes on a socket in state \<open>s\<close>
  with an error code and the bytes, \<open>wr\<close> completes an \<open>async_write\<close>; \<open>serialize\<close> and
  \<open>parse\<close> are \<open>SerializeToString\<close> and \<open>ParseFromArray\<close>; \<open>show_type\<close> is the decimal
  \<open>lexical_cast\<close> of a type number.  A completed operation is the list of the callbacks it
  makes, in order.
\<close>

section \<open>Reading numbers\<close>

type_synonym 's reader = "'s \<Rightarrow> nat \<Rightarrow> (error_code \<times> u8 list) \<times> 's"
type_synonym 's writer = "'s \<Rightarrow> u8 list \<Rightarrow> error_code \<times> 's"

text \<open>\<open>network_to_host_*\<close> on the bytes of a buffer, and \<open>host_to_network_*\<close>.\<close>

definition be_word :: "u8 list \<Rightarrow> 'a::len word" where
  "be_word bs = foldl (\<lambda>w b. w * 256 + ucast b) 0 bs"

definition be_bytes :: "nat \<Rightarrow> 'a::len word \<Rightarrow> u8 list" where
  "be_bytes n w = map (\<lambda>i. ucast (drop_bit (8 * i) w)) (rev [0..<n])"

definition after_u32_read :: "error_code \<Rightarrow> u8 list \<Rightarrow> u32 \<times> error_code" where
  "after_u32_read error buffer = (if error \<noteq> None then (0, error) else (be_word buffer, error))"

definition after_u16_read :: "error_code \<Rightarrow> u8 list \<Rightarrow> u16 \<times> error_code" where
  "after_u16_read error buffer = (if error \<noteq> None then (0, error) else (be_word buffer, error))"

definition read_u32 :: "'s reader \<Rightarrow> 's \<Rightarrow> (u32 \<times> error_code) \<times> 's" where
  "read_u32 rd s = (case rd s 4 of ((error, buffer), s) \<Rightarrow> (after_u32_read error buffer, s))"

definition read_u16 :: "'s reader \<Rightarrow> 's \<Rightarrow> (u16 \<times> error_code) \<times> 's" where
  "read_u16 rd s = (case rd s 2 of ((error, buffer), s) \<Rightarrow> (after_u16_read error buffer, s))"

section \<open>Reading messages\<close>

datatype 'h event =
    Status network_operation_result
  | Dispatched "'h call"
  | Threw string

definition HEADER_SIZE :: nat where
  "HEADER_SIZE = 2 + 4"

record 'h message_context =
  ctx_dispatcher :: "'h message_dispatcher"
  max_message_size :: u32
  ctx_type :: message_type
  message_size_of :: u32
  message_buffer :: "u8 list"

definition on_read_error :: "'h message_context \<Rightarrow> network_operation_result \<Rightarrow> 'h event list" where
  "on_read_error ctx error = Status error # map Dispatched (cancel_all_with_error error (ctx_dispatcher ctx))"

definition template_dispatch ::
  "(u16 \<Rightarrow> string) \<Rightarrow> (message_type \<Rightarrow> u8 list \<Rightarrow> message option) \<Rightarrow> 'h message_context
     \<Rightarrow> network_operation_result \<Rightarrow> message_type \<Rightarrow> 'h event list" where
  "template_dispatch show_type parse ctx networkResult t =
     (case parse t (take (unat (message_size_of ctx)) (message_buffer ctx)) of
        None \<Rightarrow>
          (let e = network_error (''Unable to parse new message of type '' @ show_type (message_type_code (ctx_type ctx)) @
                     '' message corrupted?'')
           in [Status (net_result ET_NETWORK e)])
      | Some message \<Rightarrow>
          [Status networkResult, Dispatched (fst (dispatch networkResult message (ctx_dispatcher ctx)))])"

definition switch_dispatch ::
  "(u16 \<Rightarrow> string) \<Rightarrow> (message_type \<Rightarrow> u8 list \<Rightarrow> message option) \<Rightarrow> 'h message_context
     \<Rightarrow> network_operation_result \<Rightarrow> 'h event list" where
  "switch_dispatch show_type parse ctx result =
     (case ctx_type ctx of
        MT_ANSWER_CHALLENGE \<Rightarrow> template_dispatch show_type parse ctx result MT_ANSWER_CHALLENGE
      | MT_AUTH_ACK \<Rightarrow> template_dispatch show_type parse ctx result MT_AUTH_ACK
      | MT_CHALLENGE_RESPONSE \<Rightarrow> template_dispatch show_type parse ctx result MT_CHALLENGE_RESPONSE
      | MT_CONSUME_FROM_QUEUE \<Rightarrow> template_dispatch show_type parse ctx result MT_CONSUME_FROM_QUEUE
      | MT_CONSUME_RESPONSE \<Rightarrow> template_dispatch show_type parse ctx result MT_CONSUME_RESPONSE
      | MT_GET_CHALLENGE \<Rightarrow> template_dispatch show_type parse ctx result MT_GET_CHALLENGE
      | MT_GOSSIP \<Rightarrow> template_dispatch show_type parse ctx result MT_GOSSIP
      | MT_PROXY_PUBLISH \<Rightarrow> template_dispatch show_type parse ctx result MT_PROXY_PUBLISH
      | MT_PROXY_PUBLISH_RESPONSE \<Rightarrow> template_dispatch show_type parse ctx result MT_PROXY_PUBLISH_RESPONSE
      | MT_PUBLISH \<Rightarrow> template_dispatch show_type parse ctx result MT_PUBLISH
      | MT_PUBLISH_RESPONSE \<Rightarrow> template_dispatch show_type parse ctx result MT_PUBLISH_RESPONSE
      | MT_STAMP \<Rightarrow> template_dispatch show_type parse ctx result MT_STAMP
      | _ \<Rightarrow> [Threw (''messageutil::switch_dispatch() unhandled message type '' @
                    show_type (message_type_code (ctx_type ctx)))])"

definition after_read_message_content ::
  "(u16 \<Rightarrow> string) \<Rightarrow> (message_type \<Rightarrow> u8 list \<Rightarrow> message option) \<Rightarrow> 'h message_context \<Rightarrow> error_code
     \<Rightarrow> 'h event list" where
  "after_read_message_content show_type parse ctx error =
     (if error \<noteq> None then on_read_error ctx (from_error_code error)
      else switch_dispatch show_type parse ctx success)"

definition after_read_message_size ::
  "'s reader \<Rightarrow> (u16 \<Rightarrow> string) \<Rightarrow> (message_type \<Rightarrow> u8 list \<Rightarrow> message option) \<Rightarrow> 'h message_context
     \<Rightarrow> u32 \<Rightarrow> error_code \<Rightarrow> 's \<Rightarrow> 'h event list \<times> 's" where
  "after_read_message_size rd show_type parse ctx messageSize error s =
     (if error \<noteq> None then (on_read_error ctx (from_error_code error), s)
      else if max_message_size ctx < messageSize
      then (on_read_error ctx (net_result ET_INVALID_TYPE (network_error ''Message was too large'')), s)
      else (case rd s (unat messageSize) of
              ((error, buffer), s) \<Rightarrow>
                (let ctx = ctx\<lparr>message_buffer := buffer, message_size_of := messageSize\<rparr>
                 in (after_read_message_content show_type parse ctx error, s))))"

definition after_read_message_type ::
  "'s reader \<Rightarrow> (u16 \<Rightarrow> string) \<Rightarrow> (message_type \<Rightarrow> u8 list \<Rightarrow> message option) \<Rightarrow> 'h message_context
     \<Rightarrow> u16 \<Rightarrow> error_code \<Rightarrow> 's \<Rightarrow> 'h event list \<times> 's" where
  "after_read_message_type rd show_type parse ctx messageType error s =
     (if error \<noteq> None then (on_read_error ctx (from_error_code error), s)
      else if messageType \<le> message_type_code MT_INVALID \<or> message_type_code MT_INVALID_OUT_OF_RANGE \<le> messageType
      then (on_read_error ctx (net_result ET_INVALID_TYPE
              (network_error (''Message type '' @ show_type messageType @ '' is invalid''))), s)
      else (let ctx = ctx\<lparr>ctx_type := message_type_of_code messageType\<rparr>
            in case read_u32 rd s of
                 ((messageSize, error), s) \<Rightarrow> after_read_message_size rd show_type parse ctx messageSize error s))"

definition read_message ::
  "'s reader \<Rightarrow> (u16 \<Rightarrow> string) \<Rightarrow> (message_type \<Rightarrow> u8 list \<Rightarrow> message option) \<Rightarrow> 'h message_dispatcher
     \<Rightarrow> u32 \<Rightarrow> 's \<Rightarrow> 'h event list \<times> 's" where
  "read_message rd show_type parse d maxSize s =
     (let ctx = \<lparr>ctx_dispatcher = d, max_message_size = maxSize, ctx_type = MT_INVALID, message_size_of = 0,
                 message_buffer = []\<rparr>
      in case read_u16 rd s of
           ((messageType, error), s) \<Rightarrow> after_read_message_type rd show_type parse ctx messageType error s)"

section \<open>Writing messages\<close>

definition after_write_message :: "error_code \<Rightarrow> 'h event list" where
  "after_write_message error =
     (if error \<noteq> None then [Status (from_error_code error)] else [Status success])"

definition message_frame :: "message_type \<Rightarrow> u8 list \<Rightarrow> u8 list" where
  "message_frame t message_buf =
     be_bytes 2 (message_type_code t) @ be_bytes 4 (of_nat (length message_buf) :: u32) @ message_buf"

definition write_message ::
  "'s writer \<Rightarrow> (message \<Rightarrow> u8 list) \<Rightarrow> message_type \<Rightarrow> message \<Rightarrow> 's \<Rightarrow> 'h event list \<times> 's" where
  "write_message wr serialize t message s =
     (case wr s (message_frame t (serialize message)) of
        (error, s) \<Rightarrow> (after_write_message error, s))"

section \<open>Contract of the transport\<close>

text \<open>
  What \<open>async_read\<close> and \<open>async_write\<close> document for a connected stream that works: a write
  appends all its bytes to what the peer has not read yet, a read of as many bytes as are
  there delivers exactly those bytes in order.
\<close>

definition reads_stream :: "u8 list reader \<Rightarrow> bool" where
  "reads_stream rd \<longleftrightarrow> (\<forall>bs rest. rd (bs @ rest) (length bs) = ((None, bs), rest))"

definition writes_stream :: "u8 list writer \<Rightarrow> bool" where
  "writes_stream wr \<longleftrightarrow> (\<forall>s bs. wr s bs = (None, s @ bs))"

text \<open>A stream in memory, which ends with an error when it runs out of bytes.\<close>

definition memory_read :: "u8 list reader" where
  "memory_read s n =
     (if n \<le> length s then ((None, take n s), drop n s) else ((Some ''End of file'', s), []))"

definition memory_write :: "u8 list writer" where
  "memory_write s bs = (None, s @ bs)"

text \<open>The three ways a read ends.\<close>

definition read_outcome :: "'h message_dispatcher \<Rightarrow> (message_type \<Rightarrow> u8 list \<Rightarrow> message option) \<Rightarrow> 'h event list \<Rightarrow> bool" where
  "read_outcome d parse evs \<longleftrightarrow>
     (\<exists>r. get_error_type r \<in> {ET_NETWORK, ET_INVALID_TYPE} \<and>
          evs = Status r # map Dispatched (cancel_all_with_error r d)) \<or>
     (\<exists>e. evs = [Status (net_result ET_NETWORK e)]) \<or>
     (\<exists>t bs m. parse t bs = Some m \<and> evs = [Status success, Dispatched (fst (dispatch success m d))])"

section \<open>Numbers on the wire\<close>

lemma length_be_bytes [simp]: "length (be_bytes n w) = n"
  by (simp add: be_bytes_def)

lemma be_bytes_Suc: "be_bytes (Suc n) w = ucast (drop_bit (8 * n) w) # be_bytes n w"
  by (simp add: be_bytes_def)

lemma foldl_be_bytes:
  "foldl (\<lambda>a b. a * 256 + ucast b) a (be_bytes n w) = a * 2 ^ (8 * n) + take_bit (8 * n) w"
  for a w :: "'a::len word"
proof (induction n arbitrary: a)
  case 0
  then show ?case by (simp add: be_bytes_def)
next
  case (Suc n)
  have split: "take_bit (8 * Suc n) w = ucast (ucast (drop_bit (8 * n) w) :: u8) * 2 ^ (8 * n) + take_bit (8 * n) w"
  proof -
    have "take_bit (8 * Suc n) w =
        push_bit (8 * n) (drop_bit (8 * n) (take_bit (8 * Suc n) w)) + take_bit (8 * n) (take_bit (8 * Suc n) w)"
      by (rule bits_ident [symmetric])
    moreover have "drop_bit (8 * n) (take_bit (8 * Suc n) w) = take_bit 8 (drop_bit (8 * n) w)"
      by (simp add: drop_bit_take_bit)
    moreover have "ucast (ucast (drop_bit (8 * n) w) :: u8) = take_bit 8 (drop_bit (8 * n) w)"
      by (simp add: unsigned_ucast_eq)
    ultimately show ?thesis by (simp add: push_bit_eq_mult min_def)
  qed
  show ?case
    by (simp only: be_bytes_Suc foldl.simps Suc.IH split) (simp add: power_add algebra_simps)
qed

lemma be_word_bytes:
  assumes "LENGTH('a::len) = 8 * n"
  shows "be_word (be_bytes n w) = (w :: 'a word)"
  using foldl_be_bytes [of 0 n w] take_bit_length_eq [of w] assms by (simp add: be_word_def)

lemma be_word_16 [wire_simps]: "be_word (be_bytes 2 w) = (w :: u16)"
  by (rule be_word_bytes) simp

lemma be_word_32 [wire_simps]: "be_word (be_bytes 4 w) = (w :: u32)"
  by (rule be_word_bytes) simp

section \<open>Reading a frame\<close>

lemma read_numbers [wire_simps]:
  assumes "reads_stream rd"
  shows "read_u16 rd (be_bytes 2 w16 @ rest) = ((w16, None), rest)"
    "read_u32 rd (be_bytes 4 w32 @ rest) = ((w32, None), rest)"
proof -
  have "rd (be_bytes 2 w16 @ rest) 2 = ((None, be_bytes 2 w16), rest)"
    "rd (be_bytes 4 w32 @ rest) 4 = ((None, be_bytes 4 w32), rest)"
    using assms unfolding reads_stream_def by (metis length_be_bytes)+
  then show "read_u16 rd (be_bytes 2 w16 @ rest) = ((w16, None), rest)"
    "read_u32 rd (be_bytes 4 w32 @ rest) = ((w32, None), rest)"
    by (simp_all add: read_u16_def read_u32_def after_u16_read_def after_u32_read_def wire_simps)
qed

lemma switch_dispatch_valid:
  assumes "ctx_type ctx = type_of_message m"
  shows "switch_dispatch show_type parse ctx r = template_dispatch show_type parse ctx r (type_of_message m)"
  by (cases m) (simp_all add: switch_dispatch_def assms)

lemma switch_dispatch_code:
  assumes "0 < c" "c < 13" "ctx_type ctx = message_type_of_code c"
  shows "switch_dispatch show_type parse ctx r = template_dispatch show_type parse ctx r (message_type_of_code c)"
proof -
  have "unat c \<in> {1..<13}" using assms(1,2) by (simp add: word_less_nat_alt Suc_le_eq unat_gt_0)
  then have "unat c \<in> {1, 2, 3, 4, 5, 6, 7, 8, 9, 10, 11, 12}"
    unfolding atLeastLessThan_iff insert_iff empty_iff by presburger
  then show ?thesis
    by (auto simp: switch_dispatch_def assms(3) message_type_of_code_def message_types_def)
qed

lemma unat_of_nat_length: "length bs \<le> unat (n :: u32) \<Longrightarrow> unat (of_nat (length bs) :: u32) = length bs"
  by (metis le_unat_uoi)

lemma read_message_frame:
  assumes "reads_stream rd" "length payload \<le> unat maxSize"
  shows "read_message rd show_type parse d maxSize (message_frame (type_of_message m) payload @ rest) =
    ((case parse (type_of_message m) payload of
        Some m' \<Rightarrow> [Status success, Dispatched (fst (dispatch success m' d))]
      | None \<Rightarrow> [Status (net_result ET_NETWORK (network_error (''Unable to parse new message of type '' @
                   show_type (message_type_code (type_of_message m)) @ '' message corrupted?'')))]), rest)"
proof -
  let ?n = "of_nat (length payload) :: u32"
  have n: "unat ?n = length payload" using unat_of_nat_length [OF assms(2)] .
  then have le: "?n \<le> maxSize" using assms(2) by (simp add: word_le_nat_alt)
  have rd: "rd (payload @ rest) (length payload) = ((None, payload), rest)"
    using assms(1) unfolding reads_stream_def by blast
  show ?thesis
    using type_of_message_valid [of m] le
    by (simp add: read_message_def message_frame_def Let_def read_numbers [OF assms(1)] after_read_message_type_def
        after_read_message_size_def rd after_read_message_content_def switch_dispatch_valid template_dispatch_def n
        not_less [symmetric] split: option.split)
qed

lemma on_read_error_outcome:
  "get_error_type r \<in> {ET_NETWORK, ET_INVALID_TYPE} \<Longrightarrow> read_outcome (ctx_dispatcher ctx) parse (on_read_error ctx r)"
  unfolding read_outcome_def on_read_error_def by blast

lemma template_dispatch_outcome:
  "read_outcome (ctx_dispatcher ctx) parse (template_dispatch show_type parse ctx success t)"
  unfolding read_outcome_def template_dispatch_def Let_def by (auto split: option.split)

lemma get_error_type_simps [simp]:
  "get_error_type (from_error_code e) = ET_NETWORK" "get_error_type (net_result et x) = et"
  by (simp_all add: from_error_code_def net_result_def)

lemma after_content_outcome:
  assumes "0 < c" "c < 13" "ctx_type ctx = message_type_of_code c"
  shows "read_outcome (ctx_dispatcher ctx) parse (after_read_message_content show_type parse ctx error)"
  unfolding after_read_message_content_def switch_dispatch_code [OF assms]
  by (auto intro: on_read_error_outcome template_dispatch_outcome)

lemma after_size_outcome:
  assumes "0 < c" "c < 13" "ctx_type ctx = message_type_of_code c"
  shows "read_outcome (ctx_dispatcher ctx) parse
    (fst (after_read_message_size rd show_type parse ctx messageSize error s))"
proof -
  obtain e b s' where r: "rd s (unat messageSize) = ((e, b), s')" by (metis surj_pair)
  let ?ctx = "ctx\<lparr>message_buffer := b, message_size_of := messageSize\<rparr>"
  have "read_outcome (ctx_dispatcher ?ctx) parse (after_read_message_content show_type parse ?ctx e)"
    by (rule after_content_outcome [OF assms(1,2)]) (simp add: assms(3))
  then show ?thesis
    by (auto simp: after_read_message_size_def Let_def r intro: on_read_error_outcome)
qed

lemma after_type_outcome:
  "read_outcome (ctx_dispatcher ctx) parse
    (fst (after_read_message_type rd show_type parse ctx messageType error s))"
proof (cases "error = None \<and> 0 < messageType \<and> messageType < 13")
  case True
  let ?ctx = "ctx\<lparr>ctx_type := message_type_of_code messageType\<rparr>"
  obtain n e s' where r: "read_u32 rd s = ((n, e), s')" by (metis surj_pair)
  have "read_outcome (ctx_dispatcher ?ctx) parse (fst (after_read_message_size rd show_type parse ?ctx n e s'))"
    by (rule after_size_outcome [of messageType]) (simp_all add: True)
  then show ?thesis using True
    by (auto simp: after_read_message_type_def Let_def r intro: on_read_error_outcome)
next
  case False
  then show ?thesis
    by (auto simp: after_read_message_type_def not_le not_less intro: on_read_error_outcome)
qed

section \<open>Properties\<close>

text \<open>
  C6: what one side writes the other side reads: over a working stream, a frame produced by
  \<open>write_message\<close> is taken off the stream exactly, reported as a success, and its message is
  dispatched once, whatever follows it, provided it is not larger than the receiver allows.
\<close>

theorem wire_round_trip:
  assumes "reads_stream rd" "writes_stream wr"
    "parse (type_of_message m) (serialize m) = Some m" "length (serialize m) \<le> unat maxSize"
  shows "\<exists>bytes. write_message wr serialize (type_of_message m) m s = ([Status success], s @ bytes) \<and>
    read_message rd show_type parse d maxSize (bytes @ rest) =
      ([Status success, Dispatched (fst (dispatch success m d))], rest)"
  using assms(2,3)
  by (intro exI [of _ "message_frame (type_of_message m) (serialize m)"])
    (simp add: write_message_def writes_stream_def after_write_message_def read_message_frame [OF assms(1,4)])

lemma memory_stream: "reads_stream memory_read" "writes_stream memory_write"
  by (simp_all add: reads_stream_def writes_stream_def memory_read_def memory_write_def)

theorem wire_round_trip_witness:
  "\<exists>bytes. write_message memory_write (\<lambda>_. [7]) MT_GET_CHALLENGE (GetChallenge (make_GetChallengeMessage 1 0)) [] =
      ([Status success], [] @ bytes) \<and>
    read_message memory_read (\<lambda>_. []) (\<lambda>_ _. Some (GetChallenge (make_GetChallengeMessage 1 0)))
      (message_dispatcher_new (Some 0)) 1024 (bytes @ [9]) =
      ([Status success, Dispatched (fst (dispatch success (GetChallenge (make_GetChallengeMessage 1 0))
         (message_dispatcher_new (Some (0 :: nat)))))], [9])"
  using wire_round_trip [OF memory_stream, where m = "GetChallenge (make_GetChallengeMessage 1 0)"
      and parse = "\<lambda>_ _. Some (GetChallenge (make_GetChallengeMessage 1 0))" and serialize = "\<lambda>_. [7]"
      and maxSize = 1024 and s = "[]" and rest = "[9]" and d = "message_dispatcher_new (Some 0)" and show_type = "\<lambda>_. []"]
  by simp


end
