(* ===== verification/Connection.thy ===== *)
theory Connection
  imports Wire Endpoint
begin

text \<open>
  \<open>shared/src/connection_base.{h,cpp}\<close>: a connection to a peer, with its endpoint, its socket
  (a state of type \<open>'s\<close>), the counter of message identifiers and the limit on message
  sizes.  Name resolution, connecting and closing belong to the socket library and are
  parameters.
\<close>

section \<open>Definitions\<close>

record 's connection_base =
  conn_endpoint :: endpoint
  conn_socket :: 's
  next_id :: u32
  conn_max_message_size :: u32

definition connection_base_out :: "'s \<Rightarrow> endpoint \<Rightarrow> u32 \<Rightarrow> 's connection_base" where
  "connection_base_out sock ep maxMessageSize =
     \<lparr>conn_endpoint = ep, conn_socket = sock, next_id = 0, conn_max_message_size = maxMessageSize\<rparr>"

text \<open>The inbound constructor; the default endpoint has uninitialised members.\<close>

definition connection_base_in :: "'s \<Rightarrow> u16 \<Rightarrow> endpoint_proto \<Rightarrow> u32 \<Rightarrow> 's connection_base" where
  "connection_base_in sock uport uproto maxMessageSize =
     \<lparr>conn_endpoint = endpoint_default uport uproto, conn_socket = sock, next_id = 0,
      conn_max_message_size = maxMessageSize\<rparr>"

definition get_next_id :: "'s connection_base \<Rightarrow> u32 \<times> 's connection_base" where
  "get_next_id c = (let c = c\<lparr>next_id := next_id c + 1\<rparr> in (next_id c, c))"

definition after_connect :: "error_code \<Rightarrow> 'h event list" where
  "after_connect err =
     (if err = None then [Status success] else [Status (from_error_code_info ''connect failed'' err)])"

definition after_resolve ::
  "('s \<Rightarrow> 'ep \<Rightarrow> error_code \<times> 's) \<Rightarrow> error_code \<Rightarrow> 'ep \<Rightarrow> 's connection_base \<Rightarrow> 'h event list \<times> 's connection_base" where
  "after_resolve async_connect err ep c =
     (if err = None
      then (case async_connect (conn_socket c) ep of
              (err, sock) \<Rightarrow> (after_connect err, c\<lparr>conn_socket := sock\<rparr>))
      else ([Status (from_error_code_info ''name resolution failed'' err)], c))"

definition connect ::
  "(string \<Rightarrow> string \<Rightarrow> error_code \<times> 'ep) \<Rightarrow> ('s \<Rightarrow> 'ep \<Rightarrow> error_code \<times> 's) \<Rightarrow> (u16 \<Rightarrow> string)
     \<Rightarrow> 's connection_base \<Rightarrow> 'h event list \<times> 's connection_base" where
  "connect async_resolve async_connect show_port c =
     (case async_resolve (host_name (conn_endpoint c)) (show_port (port (conn_endpoint c))) of
        (err, ep) \<Rightarrow> after_resolve async_connect err ep c)"

definition send_message ::
  "'s writer \<Rightarrow> (message \<Rightarrow> u8 list) \<Rightarrow> message_type \<Rightarrow> message \<Rightarrow> 's connection_base \<Rightarrow> 'h event list \<times> 's connection_base" where
  "send_message wr serialize t message c =
     (case write_message wr serialize t message (conn_socket c) of
        (evs, sock) \<Rightarrow> (evs, c\<lparr>conn_socket := sock\<rparr>))"

definition conn_read_message ::
  "'s reader \<Rightarrow> (u16 \<Rightarrow> string) \<Rightarrow> (message_type \<Rightarrow> u8 list \<Rightarrow> message option) \<Rightarrow> 'h message_dispatcher
     \<Rightarrow> 's connection_base \<Rightarrow> 'h event list \<times> 's connection_base" where
  "conn_read_message rd show_type parse d c =
     (case read_message rd show_type parse d (conn_max_message_size c) (conn_socket c) of
        (evs, sock) \<Rightarrow> (evs, c\<lparr>conn_socket := sock\<rparr>))"

definition close :: "('s \<Rightarrow> 's) \<Rightarrow> 's connection_base \<Rightarrow> 's connection_base" where
  "close sock_close c = c\<lparr>conn_socket := sock_close (conn_socket c)\<rparr>"

definition resolve_connected_endpoint :: "('s \<Rightarrow> string \<times> u16) \<Rightarrow> 's connection_base \<Rightarrow> 's connection_base" where
  "resolve_connected_endpoint remote_endpoint c =
     c\<lparr>conn_endpoint := endpoint_of_tcp (remote_endpoint (conn_socket c))\<rparr>"

text \<open>The identifiers of \<open>n\<close> successive messages.\<close>

fun next_ids :: "nat \<Rightarrow> 's connection_base \<Rightarrow> u32 list" where
  "next_ids 0 c = []"
| "next_ids (Suc n) c = (case get_next_id c of (i, c) \<Rightarrow> i # next_ids n c)"

section \<open>Lemmas\<close>

lemma next_ids_eq: "next_ids n c = map (\<lambda>k. next_id c + of_nat (Suc k)) [0..<n]"
proof (induction n arbitrary: c)
  case (Suc n)
  have "[0..<Suc n] = 0 # map Suc [0..<n]" by (simp add: map_Suc_upt upt_conv_Cons del: upt_Suc)
  then show ?case
    by (simp add: get_next_id_def Let_def Suc add.assoc comp_def del: upt_Suc)
qed simp

section \<open>Properties\<close>

text \<open>
  The identifiers a connection hands out are 1, 2, 3 and so on modulo \<open>2 ^ 32\<close>: fewer
  than \<open>2 ^ 32\<close> of them are pairwise distinct and never 0, the identifier that stands for
  a message that answers nothing; the next one is 0.
\<close>

lemma next_ids_distinct:
  assumes "next_id c = 0" "n < 2 ^ 32"
  shows "next_ids n c = map of_nat [1..<Suc n] \<and> distinct (next_ids n c) \<and> 0 \<notin> set (next_ids n c) \<and>
     last (next_ids (2 ^ 32) c) = 0"
proof -
  have eq: "next_ids m c = map of_nat [1..<Suc m]" for m
  proof -
    have "[1..<Suc m] = map Suc [0..<m]" by (simp only: map_Suc_upt One_nat_def)
    then show ?thesis by (simp add: next_ids_eq assms(1) comp_def del: upt_Suc)
  qed
  have "unat (of_nat k :: u32) = k" if "k < 2 ^ 32" for k
    using that by (simp add: unat_of_nat take_bit_nat_eq_self)
  then have inj: "inj_on (of_nat :: nat \<Rightarrow> u32) {0..<2 ^ 32}"
    by (intro inj_on_inverseI [of _ unat]) simp
  have "distinct (next_ids n c)"
    unfolding eq using assms(2) by (auto simp: distinct_map intro!: inj_on_subset [OF inj])
  moreover have "0 \<notin> set (next_ids n c)"
  proof
    assume "0 \<in> set (next_ids n c)"
    then obtain k where "k \<in> {1..<Suc n}" "of_nat k = (0 :: u32)"
      unfolding eq set_map set_upt by (metis imageE)
    then show False using inj_onD [OF inj, of k 0] assms(2) by auto
  qed
  moreover have "last (next_ids (2 ^ 32) c) = 0"
    unfolding eq by (simp add: last_map)
  ultimately show ?thesis using eq [of n] by blast
qed

end
