(* ===== verification/Quorum.thy ===== *)
theory Quorum
  imports Clocks "HOL-Library.Multiset"
begin

text \<open>
  \<open>node/src/quorum_logic.h\<close> and \<open>node/src/operation_result.h\<close>: running an operation on the
  replicas of a key until a quorum of them has answered.  The stored functions are
  arguments of the operations that call them.  Such a function takes the world \<open>'w\<close> it acts
  on and the quorum object, and returns both, with the exception that ended it, if any.
\<close>

section \<open>Code with effects\<close>

type_synonym ('s, 'e) code = "'s \<Rightarrow> 's \<times> 'e option"

definition seq :: "('s, 'e) code \<Rightarrow> ('s, 'e) code \<Rightarrow> ('s, 'e) code" where
  "seq f g s = (case f s of (s, None) \<Rightarrow> g s | r \<Rightarrow> r)"

section \<open>Results of an operation\<close>

text \<open>A result carries a message, or a function that throws the error of the operation.\<close>

record ('m, 'e) operation_result =
  result_message :: 'm
  throw_function :: "'e option"

definition operation_result_ok :: "'m \<Rightarrow> ('m, 'e) operation_result" where
  "operation_result_ok m = \<lparr>result_message = m, throw_function = None\<rparr>"

definition operation_result_error :: "'m \<Rightarrow> 'e \<Rightarrow> ('m, 'e) operation_result" where
  "operation_result_error null e = \<lparr>result_message = null, throw_function = Some e\<rparr>"

definition rethrow_error :: "('m, 'e) operation_result \<Rightarrow> 'e + unit" where
  "rethrow_error r = (case throw_function r of Some e \<Rightarrow> Inl e | None \<Rightarrow> Inr ())"

section \<open>Quorum logic\<close>

record ('p, 'c) quorum_logic =
  q_ctx :: 'c
  all_nodes :: "'p list"
  success_nodes :: "'p list"
  failed_nodes :: "'p list"
  lastNode :: nat

definition quorum_logic_new :: "'c \<Rightarrow> 'p list \<Rightarrow> ('p, 'c) quorum_logic" where
  "quorum_logic_new ctx allNodes =
     \<lparr>q_ctx = ctx, all_nodes = allNodes, success_nodes = [], failed_nodes = [], lastNode = 0\<rparr>"

definition can_continue :: "('p, 'c) quorum_logic \<Rightarrow> bool" where
  "can_continue q \<longleftrightarrow>
     (of_nat (RF div 2) :: u64) < of_nat RF - of_nat (length (failed_nodes q)) \<and> lastNode q + 1 < RF"

definition call_next ::
  "('p \<Rightarrow> ('w \<times> ('p, 'c) quorum_logic, 'e) code) \<Rightarrow> ('w \<times> ('p, 'c) quorum_logic, 'e) code" where
  "call_next function = (\<lambda>(w, q). function (all_nodes q ! lastNode q) (w, q\<lparr>lastNode := lastNode q + 1\<rparr>))"

fun run_loop ::
  "nat \<Rightarrow> ('p \<Rightarrow> ('w \<times> ('p, 'c) quorum_logic, 'e) code) \<Rightarrow> ('w \<times> ('p, 'c) quorum_logic, 'e) code" where
  "run_loop 0 function s = (s, None)"
| "run_loop (Suc n) function s = seq (call_next function) (run_loop n function) s"

definition run ::
  "('p \<Rightarrow> ('w \<times> ('p, 'c) quorum_logic, 'e) code) \<Rightarrow> ('w \<times> ('p, 'c) quorum_logic, 'e) code" where
  "run function = run_loop (RF - RF div 2) function"

definition node_success :: "'p \<Rightarrow> ('p, 'c) quorum_logic \<Rightarrow> ('p, 'c) quorum_logic" where
  "node_success node q = q\<lparr>success_nodes := success_nodes q @ [node]\<rparr>"

definition node_failed ::
  "('p \<Rightarrow> ('w \<times> ('p, 'c) quorum_logic, 'e) code) \<Rightarrow> ('w \<times> ('p, 'c) quorum_logic, 'e) code \<Rightarrow> 'p
     \<Rightarrow> ('w \<times> ('p, 'c) quorum_logic, 'e) code" where
  "node_failed function fail_function node =
     (\<lambda>(w, q). let q = q\<lparr>failed_nodes := failed_nodes q @ [node]\<rparr>
               in if can_continue q then call_next function (w, q) else fail_function (w, q))"

definition operation_succeeded :: "('p, 'c) quorum_logic \<Rightarrow> bool" where
  "operation_succeeded q \<longleftrightarrow> RF div 2 < length (success_nodes q)"

section \<open>Operations that answer later\<close>

text \<open>
  With operations that only start a request, the answers come in any order after \<open>run\<close> has
  returned.  The world records the nodes called, the answers still missing and the number
  of calls of the fail function.
\<close>

record 'p requests =
  issued :: "'p list"
  outstanding :: "'p list"
  fail_calls :: nat

definition start_request :: "'p \<Rightarrow> ('p requests \<times> ('p, 'c) quorum_logic, unit) code" where
  "start_request p = (\<lambda>(w, q). ((w\<lparr>issued := issued w @ [p], outstanding := outstanding w @ [p]\<rparr>, q), None))"

definition count_failure :: "('p requests \<times> ('p, 'c) quorum_logic, unit) code" where
  "count_failure = (\<lambda>(w, q). ((w\<lparr>fail_calls := fail_calls w + 1\<rparr>, q), None))"

inductive quorum_reach :: "'p list \<Rightarrow> 'p requests \<times> ('p, unit) quorum_logic \<Rightarrow> bool" for nodes where
  started: "run start_request (\<lparr>issued = [], outstanding = [], fail_calls = 0\<rparr>, quorum_logic_new () nodes) = (s, None)
     \<Longrightarrow> quorum_reach nodes s"
| answered: "quorum_reach nodes (w, q) \<Longrightarrow> p \<in> set (outstanding w) \<Longrightarrow>
     quorum_reach nodes (w\<lparr>outstanding := remove1 p (outstanding w)\<rparr>, node_success p q)"
| refused: "quorum_reach nodes (w, q) \<Longrightarrow> p \<in> set (outstanding w) \<Longrightarrow>
     node_failed start_request count_failure p (w\<lparr>outstanding := remove1 p (outstanding w)\<rparr>, q) = (s, None)
     \<Longrightarrow> quorum_reach nodes s"

definition quorum_inv :: "'p list \<Rightarrow> 'p requests \<times> ('p, unit) quorum_logic \<Rightarrow> bool" where
  "quorum_inv nodes = (\<lambda>(w, q).
     all_nodes q = nodes \<and> lastNode q = 2 \<and> issued w = take 2 nodes \<and>
     mset (success_nodes q) + mset (failed_nodes q) + mset (outstanding w) = mset (take 2 nodes) \<and>
     fail_calls w = length (failed_nodes q))"

section \<open>Lemmas\<close>

lemma RF_numbers [simp]: "RF = 3" "RF div 2 = 1" "RF - RF div 2 = 2"
  by (simp_all add: RF_def)

lemma seq_simps [simp]:
  "f s = (s', None) \<Longrightarrow> seq f g s = g s'" "f s = (s', Some e) \<Longrightarrow> seq f g s = (s', Some e)"
  by (simp_all add: seq_def)

lemma run_twice: "run f s = seq (call_next f) (call_next f) s"
proof -
  have "run_loop 1 f = call_next f"
    by (rule ext) (simp add: seq_def split: prod.split option.split)
  moreover have "run f s = run_loop (Suc 1) f s" unfolding run_def RF_numbers(3) by (simp only: numeral_2_eq_2 One_nat_def)
  ultimately show ?thesis by (simp only: run_loop.simps)
qed

lemma quorum_inv_started:
  assumes "length nodes = RF"
    "run start_request (\<lparr>issued = [], outstanding = [], fail_calls = 0\<rparr>, quorum_logic_new () nodes) = (s, None)"
  shows "quorum_inv nodes s"
proof -
  obtain a b c where n: "nodes = [a, b, c]"
    using assms(1) by (auto simp: RF_def numeral_3_eq_3 length_Suc_conv)
  have "s = (\<lparr>issued = [a, b], outstanding = [a, b], fail_calls = 0\<rparr>, (quorum_logic_new () nodes)\<lparr>lastNode := 2\<rparr>)"
    using assms(2) by (simp add: run_twice seq_def call_next_def start_request_def quorum_logic_new_def n numeral_2_eq_2)
  then show ?thesis by (simp add: quorum_inv_def quorum_logic_new_def n)
qed

lemma quorum_inv_answered:
  "quorum_inv nodes (w, q) \<Longrightarrow> p \<in> set (outstanding w) \<Longrightarrow>
     quorum_inv nodes (w\<lparr>outstanding := remove1 p (outstanding w)\<rparr>, node_success p q)"
  by (simp add: quorum_inv_def node_success_def)

lemma quorum_inv_refused:
  "quorum_inv nodes (w, q) \<Longrightarrow> p \<in> set (outstanding w) \<Longrightarrow>
     node_failed start_request count_failure p (w\<lparr>outstanding := remove1 p (outstanding w)\<rparr>, q) = (s, None) \<Longrightarrow>
     quorum_inv nodes s"
  using insert_DiffM [of p "mset (outstanding w)"]
  by (auto simp: quorum_inv_def node_failed_def count_failure_def can_continue_def Let_def add.assoc simp flip: add_mset_add_single
      union_mset_add_mset_right)

lemma quorum_reach_inv:
  assumes "quorum_reach nodes s" "length nodes = RF"
  shows "quorum_inv nodes s"
  using assms
  by (induction rule: quorum_reach.induct) (blast intro: quorum_inv_started quorum_inv_answered quorum_inv_refused)+

section \<open>Properties\<close>

text \<open>
  C11: with answers that arrive after \<open>run\<close>, exactly the first two of the three nodes are
  ever contacted.  The operation succeeds exactly when both have answered positively; every
  refusal calls the fail function, so that the two outcomes exclude each other, and once
  all answers are in one of them has happened.
\<close>

theorem quorum_decides:
  assumes "quorum_reach nodes (w, q)" "length nodes = RF"
  shows "issued w = take 2 nodes \<and> fail_calls w = length (failed_nodes q) \<and>
     (operation_succeeded q \<longleftrightarrow> fail_calls w = 0 \<and> outstanding w = [])"
proof -
  have inv: "quorum_inv nodes (w, q)" using quorum_reach_inv [OF assms] .
  then have "size (mset (success_nodes q) + mset (failed_nodes q) + mset (outstanding w)) = 2"
    using assms(2) by (simp add: quorum_inv_def)
  then have "length (success_nodes q) + length (failed_nodes q) + length (outstanding w) = 2" by simp
  then have "operation_succeeded q \<longleftrightarrow> failed_nodes q = [] \<and> outstanding w = []"
    unfolding operation_succeeded_def RF_numbers length_0_conv [symmetric] by linarith
  then show ?thesis using inv by (simp add: quorum_inv_def)
qed

lemma sample_quorum_reach:
  "quorum_reach [1, 2, 3 :: nat] (\<lparr>issued = [1, 2], outstanding = [1, 2], fail_calls = 0\<rparr>,
     (quorum_logic_new () [1, 2, 3])\<lparr>lastNode := 2\<rparr>)"
  by (rule started) (simp add: run_twice seq_def call_next_def start_request_def quorum_logic_new_def)

theorem quorum_decides_witness:
  "issued \<lparr>issued = [1, 2], outstanding = [1, 2], fail_calls = 0\<rparr> = take 2 [1, 2, 3 :: nat] \<and>
   fail_calls \<lparr>issued = [1, 2 :: nat], outstanding = [1, 2], fail_calls = 0\<rparr> =
     length (failed_nodes ((quorum_logic_new () [1, 2, 3 :: nat])\<lparr>lastNode := 2\<rparr>)) \<and>
   (operation_succeeded ((quorum_logic_new () [1, 2, 3 :: nat])\<lparr>lastNode := 2\<rparr>) \<longleftrightarrow>
     fail_calls \<lparr>issued = [1, 2 :: nat], outstanding = [1, 2], fail_calls = 0\<rparr> = 0 \<and>
     outstanding \<lparr>issued = [1, 2 :: nat], outstanding = [1, 2], fail_calls = 0\<rparr> = [])"
  by (rule quorum_decides [OF sample_quorum_reach]) simp

end
