(* ===== verification/Publish.thy ===== *)
theory Publish
  imports Node_Ring Queue_Manager Murmur Messages Net_Result Quorum
begin

text \<open>
  \<open>node/src/local_node_operations.cpp\<close> and the publishing side of
  \<open>node/src/csauthenticated.cpp\<close>: a message a client posts is sent to a quorum of the
  replicas of its queue.  The world holds what the code mutates: the nodes with their
  clocks, the queues behind each local operations object, the posted message (whose content
  the first enqueue moves out), the identifier counter of the client's connection, the
  messages handed to that connection and the calls of \<open>do_stamp_message\<close>, whose body is
  empty.
\<close>

section \<open>World\<close>

text \<open>
  The exceptions the code can meet.  \<open>Undefined\<close> stands for behaviour the language leaves
  undefined: a null pointer or a subscript out of range.  \<open>Fuel\<close> is no behaviour of the
  program: the recursion between the two stored functions is cut at a depth it never
  reaches.
\<close>

datatype exn =
    Unavailable string
  | Comparison comparison_error
  | Runtime_error string
  | Logic_error string
  | Undefined
  | Fuel

record world =
  node_heap_of :: node_heap
  managers :: "node_ptr \<Rightarrow> queue_manager"
  post :: PublishMessage
  conn_next_id :: u32
  sent :: "(message_type \<times> message) list"
  stamps :: "(node_ptr option list \<times> vector_clock) list"

type_synonym post_logic = "(node_ptr option, vector_clock list) quorum_logic"

section \<open>Operations on the local node\<close>

definition send_gossip :: "exn" where
  "send_gossip = Logic_error ''Refusing to gossip to self''"

text \<open>
  An operation answers at once, answers later, or throws.  The clock of the operations
  object is a reference to the clock of its node.
\<close>

datatype reply =
    Answer "(ProxyPublishResponseMessage, exn) operation_result"
  | Later
  | Raise exn

definition to_VectorClock :: "node_heap \<Rightarrow> node_ptr list \<Rightarrow> VectorClock" where
  "to_VectorClock h nodes =
     map (\<lambda>p. to_protobuf (node_clock_of (h p)) \<lparr>pb_node_id = 0, pb_generation = 0, pb_clock = 0\<rparr>) nodes"

definition local_send_proxy_publish :: "time_point \<Rightarrow> ring \<Rightarrow> string \<Rightarrow> node_ptr \<Rightarrow> world \<Rightarrow> world \<times> reply" where
  "local_send_proxy_publish now r moved self w =
     (let clientMessage = post w;
          queueIdHash = murmur_hash3_string (pm_queue_id clientMessage)
      in case uuid_from_bytes (pm_message_id clientMessage) of
           Inl _ \<Rightarrow> (w, Raise (Runtime_error ''uuid_from_bytes(): input was not the correct size''))
         | Inr messageId \<Rightarrow>
             (let w = w\<lparr>managers := (managers w)(self :=
                          enqueue_message now queueIdHash messageId (pm_content clientMessage) (pm_ttl clientMessage)
                            (managers w self)),
                        post := clientMessage\<lparr>pm_content := moved\<rparr>\<rparr>;
                  n = node_heap_of w self;
                  n = n\<lparr>node_clock_of := (node_clock_of n)\<lparr>clock := clock (node_clock_of n) + 1\<rparr>\<rparr>;
                  w = w\<lparr>node_heap_of := (node_heap_of w)(self := n)\<rparr>;
                  response = make_ProxyPublishResponseMessage 0 (ident_id (pm_identity clientMessage))
              in case find_nodes_for_key queueIdHash r of
                   Inl (unavailable_error e) \<Rightarrow> (w, Raise (Unavailable e))
                 | Inl _ \<Rightarrow> (w, Raise Undefined)
                 | Inr nodes \<Rightarrow>
                     (w, Answer (operation_result_ok (response\<lparr>ppr_clock := to_VectorClock (node_heap_of w) nodes\<rparr>)))))"

text \<open>\<open>node->operations().send_proxy_publish(message, ...)\<close>.\<close>

definition node_send_proxy_publish ::
  "settings \<Rightarrow> time_point \<Rightarrow> ring \<Rightarrow> string \<Rightarrow> node_ptr \<Rightarrow> world \<Rightarrow> world \<times> reply" where
  "node_send_proxy_publish cfg now r moved p w =
     (case operations cfg (node_heap_of w p) of
        Inl (logic_error e) \<Rightarrow> (w, Raise (Logic_error e))
      | Inl null_dereference \<Rightarrow> (w, Raise Undefined)
      | Inr local_node_operations \<Rightarrow> local_send_proxy_publish now r moved p w)"

section \<open>Handling a posted message\<close>

definition send_unavailable :: "world \<Rightarrow> world" where
  "send_unavailable w =
     (let i = conn_next_id w + 1;
          response = make_PublishResponseMessage i (ident_id (pm_identity (post w)));
          response = response\<lparr>pr_status := PS_UNAVAILABLE\<rparr>
      in w\<lparr>conn_next_id := i, sent := sent w @ [(MT_PUBLISH_RESPONSE, PublishResponse response)]\<rparr>)"

definition post_fail_function :: "(world \<times> post_logic, exn) code" where
  "post_fail_function = (\<lambda>(w, logic). ((send_unavailable w, logic), None))"

definition do_stamp_message :: "node_ptr option list \<Rightarrow> vector_clock \<Rightarrow> world \<Rightarrow> world" where
  "do_stamp_message nodes maxClock w = w\<lparr>stamps := stamps w @ [(nodes, maxClock)]\<rparr>"

text \<open>The \<open>QUEUED\<close> branch: the conversion of the clock comes after \<open>node_success\<close>.\<close>

definition post_queued :: "vector_clock \<Rightarrow> node_ptr \<Rightarrow> VectorClock \<Rightarrow> (world \<times> post_logic, exn) code" where
  "post_queued uninit p netClock = (\<lambda>(w, logic).
     let logic = node_success (Some p) logic
     in case vector_clock_of_net uninit netClock of
          Inl e \<Rightarrow> ((w, logic), Some (Comparison e))
        | Inr c \<Rightarrow>
            (let logic = logic\<lparr>q_ctx := q_ctx logic @ [c]\<rparr>
             in if operation_succeeded logic then
                  (if length (q_ctx logic) < 2 then ((w, logic), Some Undefined)
                   else (case vector_clock_max (q_ctx logic ! 0) (q_ctx logic ! 1) of
                           Inl e \<Rightarrow> ((w, logic), Some (Comparison e))
                         | Inr maxClock \<Rightarrow> ((do_stamp_message (success_nodes logic) maxClock w, logic), None)))
                else ((w, logic), None)))"

definition post_callback ::
  "vector_clock \<Rightarrow> (node_ptr option \<Rightarrow> (world \<times> post_logic, exn) code) \<Rightarrow> node_ptr
     \<Rightarrow> (ProxyPublishResponseMessage, exn) operation_result \<Rightarrow> (world \<times> post_logic, exn) code" where
  "post_callback uninit function p result s =
     (let attempt =
        (case rethrow_error result of
           Inl e \<Rightarrow> (s, Some e)
         | Inr _ \<Rightarrow>
             if ppr_status (result_message result) = PP_QUEUED
             then post_queued uninit p (ppr_clock (result_message result)) s
             else node_failed function post_fail_function (Some p) s)
      in case attempt of
           (s, Some (Comparison _)) \<Rightarrow> node_failed function post_fail_function (Some p) s
         | (s, Some (Runtime_error _)) \<Rightarrow> node_failed function post_fail_function (Some p) s
         | (s, Some (Unavailable _)) \<Rightarrow> node_failed function post_fail_function (Some p) s
         | _ \<Rightarrow> attempt)"

fun post_function ::
  "vector_clock \<Rightarrow> (node_ptr \<Rightarrow> world \<Rightarrow> world \<times> reply) \<Rightarrow> nat \<Rightarrow> node_ptr option \<Rightarrow> (world \<times> post_logic, exn) code" where
  "post_function uninit ops 0 node s = (s, Some Fuel)"
| "post_function uninit ops (Suc n) None s = (s, Some Undefined)"
| "post_function uninit ops (Suc n) (Some p) s =
     (case ops p (fst s) of
        (w, Raise e) \<Rightarrow> ((w, snd s), Some e)
      | (w, Later) \<Rightarrow> ((w, snd s), None)
      | (w, Answer result) \<Rightarrow> post_callback uninit (post_function uninit ops n) p result (w, snd s))"

definition handle_post_message ::
  "settings \<Rightarrow> time_point \<Rightarrow> (node_ptr list \<Rightarrow> node_ptr list) \<Rightarrow> ring \<Rightarrow> vector_clock
     \<Rightarrow> (node_ptr \<Rightarrow> world \<Rightarrow> world \<times> reply) \<Rightarrow> network_operation_result \<Rightarrow> world \<Rightarrow> world \<times> exn option" where
  "handle_post_message cfg now shuf r uninit ops result w =
     (if \<not> was_successful result then (w, None)
      else (case find_quorum_for_operation cfg now shuf (node_heap_of w) (murmur_hash3_string (pm_queue_id (post w))) r of
              Inl (unavailable_error _) \<Rightarrow> (send_unavailable w, None)
            | Inl _ \<Rightarrow> (w, Some Undefined)
            | Inr nodes \<Rightarrow>
                (case run (post_function uninit ops RF) (w, quorum_logic_new [] nodes) of
                   ((w, _), Some (Unavailable _)) \<Rightarrow> (send_unavailable w, None)
                 | ((w, _), e) \<Rightarrow> (w, e))))"

section \<open>Vocabulary of the proofs\<close>

text \<open>
  A result is settled from slot \<open>l\<close> on if it is not out of fuel and no slot was given back;
  \<open>only_unavailable\<close> says that a run stamped nothing and sent nothing but refusals.
\<close>

definition settled :: "nat \<Rightarrow> (world \<times> post_logic) \<times> exn option \<Rightarrow> bool" where
  "settled l r \<longleftrightarrow> snd r \<noteq> Some Fuel \<and> l \<le> lastNode (snd (fst r))"

definition settles :: "nat \<Rightarrow> (node_ptr option \<Rightarrow> (world \<times> post_logic, exn) code) \<Rightarrow> bool" where
  "settles n f \<longleftrightarrow> (\<forall>node w q. RF \<le> n + lastNode q \<and> 1 \<le> n \<longrightarrow> settled (lastNode q) (f node (w, q)))"

definition only_unavailable :: "world \<Rightarrow> world \<Rightarrow> bool" where
  "only_unavailable w w' \<longleftrightarrow> stamps w' = stamps w \<and>
     (\<exists>rs. sent w' = sent w @ map (\<lambda>m. (MT_PUBLISH_RESPONSE, PublishResponse m)) rs \<and>
           list_all (\<lambda>m. pr_status m = PS_UNAVAILABLE) rs)"

definition answers_queued :: "reply \<Rightarrow> VectorClock \<Rightarrow> bool" where
  "answers_queued a c \<longleftrightarrow>
     (\<exists>res. a = Answer res \<and> throw_function res = None \<and> ppr_status (result_message res) = PP_QUEUED \<and>
            ppr_clock (result_message res) = c)"

text \<open>A posted message, and operations that queue it on two nodes with the clocks given.\<close>

definition sample_world :: world where
  "sample_world =
     \<lparr>node_heap_of = \<lambda>_. init_local_operations (sample_heap 2), managers = \<lambda>_. queue_manager_new,
      post = (make_PublishMessage 1 0)\<lparr>pm_message_id := replicate 16 (CHR ''x''), pm_queue_id := ''q''\<rparr>,
      conn_next_id = 0, sent = [], stamps = []\<rparr>"

definition sample_ops :: "VectorClock \<Rightarrow> VectorClock \<Rightarrow> node_ptr \<Rightarrow> world \<Rightarrow> world \<times> reply" where
  "sample_ops c2 c4 p w =
     (w, Answer (operation_result_ok ((make_ProxyPublishResponseMessage 0 1)
            \<lparr>ppr_status := PP_QUEUED, ppr_clock := if p = 2 then c2 else c4\<rparr>)))"

section \<open>Catching\<close>

lemma exn_catch_cases:
  "post_callback uninit f p result s =
     (let attempt =
        (case rethrow_error result of
           Inl e \<Rightarrow> (s, Some e)
         | Inr _ \<Rightarrow>
             if ppr_status (result_message result) = PP_QUEUED
             then post_queued uninit p (ppr_clock (result_message result)) s
             else node_failed f post_fail_function (Some p) s)
      in if snd attempt \<noteq> None \<and> the (snd attempt) \<notin> {Logic_error m |m. True} \<union> {Undefined, Fuel}
         then node_failed f post_fail_function (Some p) (fst attempt) else attempt)"
  unfolding post_callback_def Let_def
  by (auto split: prod.splits option.splits exn.splits)

section \<open>Depth of the recursion\<close>

lemma settled_mono: "settled l r \<Longrightarrow> l' \<le> l \<Longrightarrow> settled l' r"
  by (simp add: settled_def)

lemma node_failed_settles:
  assumes "settles n f" "RF \<le> Suc n + lastNode q"
  shows "settled (lastNode q) (node_failed f post_fail_function p (w, q))"
proof -
  let ?q = "q\<lparr>failed_nodes := failed_nodes q @ [p]\<rparr>"
  show ?thesis
  proof (cases "can_continue ?q")
    case True
    then have "RF \<le> n + lastNode (?q\<lparr>lastNode := lastNode q + 1\<rparr>) \<and> 1 \<le> n"
      using assms(2) by (simp add: can_continue_def)
    then have "settled (lastNode q + 1) (f (all_nodes q ! lastNode q) (w, ?q\<lparr>lastNode := lastNode q + 1\<rparr>))"
      using assms(1) unfolding settles_def by fastforce
    then show ?thesis using True by (auto simp: node_failed_def call_next_def Let_def elim: settled_mono)
  next
    case False
    then show ?thesis by (simp add: node_failed_def post_fail_function_def settled_def)
  qed
qed

lemma post_queued_settled:
  "settled (lastNode q) (post_queued uninit p c (w, q)) \<and> (\<forall>e. snd (post_queued uninit p c (w, q)) = Some e \<longrightarrow> e \<noteq> Fuel)"
  by (auto simp: post_queued_def settled_def node_success_def Let_def split: sum.splits)

lemma post_callback_settles:
  assumes "settles n f" "RF \<le> Suc n + lastNode q" "throw_function result \<noteq> Some Fuel"
  shows "settled (lastNode q) (post_callback uninit f p result (w, q))"
proof -
  define attempt where "attempt =
        (case rethrow_error result of
           Inl e \<Rightarrow> ((w, q), Some e)
         | Inr _ \<Rightarrow>
             if ppr_status (result_message result) = PP_QUEUED
             then post_queued uninit p (ppr_clock (result_message result)) (w, q)
             else node_failed f post_fail_function (Some p) (w, q))"
  have a: "settled (lastNode q) attempt"
    using assms(3) post_queued_settled [of q] node_failed_settles [OF assms(1,2)]
    by (auto simp: attempt_def settled_def rethrow_error_def split: option.splits)
  obtain w' q' where s: "fst attempt = (w', q')" by force
  have "settled (lastNode q') (node_failed f post_fail_function (Some p) (w', q'))"
    by (rule node_failed_settles [OF assms(1)]) (use a assms(2) in \<open>simp add: settled_def s\<close>)
  then have "settled (lastNode q) (node_failed f post_fail_function (Some p) (fst attempt))"
    unfolding s using a by (auto simp: settled_def s)
  then show ?thesis
    using a unfolding exn_catch_cases attempt_def [symmetric] by (simp add: Let_def)
qed

lemma post_function_settles:
  assumes "\<And>p w e. snd (ops p w) = Raise e \<Longrightarrow> e \<noteq> Fuel"
    "\<And>p w res. snd (ops p w) = Answer res \<Longrightarrow> throw_function res \<noteq> Some Fuel"
  shows "settles n (post_function uninit ops n)"
proof (induction n)
  case 0
  then show ?case by (simp add: settles_def)
next
  case (Suc n)
  have "settled (lastNode q) (post_function uninit ops (Suc n) node (w, q))" if "RF \<le> Suc n + lastNode q" for node w q
  proof (cases node)
    case None
    then show ?thesis by (simp add: settled_def)
  next
    case (Some p)
    obtain w' r where o: "ops p w = (w', r)" by force
    show ?thesis
    proof (cases r)
      case (Answer res)
      then show ?thesis
        using post_callback_settles [OF Suc.IH that, of res] assms(2) [of p w res] by (simp add: Some o)
    next
      case Later
      then show ?thesis by (simp add: Some o settled_def)
    next
      case (Raise e)
      then show ?thesis using assms(1) [of p w e] by (simp add: Some o settled_def)
    qed
  qed
  then show ?case unfolding settles_def by blast
qed


section \<open>What a run preserves\<close>

lemma node_failed_preserves:
  assumes "\<And>node w q. P w \<Longrightarrow> P (fst (fst (f node (w, q))))" "\<And>w. P w \<Longrightarrow> P (send_unavailable w)" "P w"
  shows "P (fst (fst (node_failed f post_fail_function p (w, q))))"
  using assms by (simp add: node_failed_def call_next_def post_fail_function_def Let_def)

lemma post_callback_preserves:
  assumes "\<And>node w q. P w \<Longrightarrow> P (fst (fst (f node (w, q))))" "\<And>w. P w \<Longrightarrow> P (send_unavailable w)" "P w"
    "throw_function result \<noteq> None \<or> ppr_status (result_message result) \<noteq> PP_QUEUED"
  shows "P (fst (fst (post_callback uninit f p result (w, q))))"
proof -
  note failed = node_failed_preserves [of P f, OF assms(1,2)]
  have "P (fst (fst (node_failed f post_fail_function (Some p)
      (fst (node_failed f post_fail_function (Some p) (w, q))))))"
    by (metis failed assms(3) prod.collapse)
  then show ?thesis
    using failed [of w "Some p" q] assms(3,4) unfolding exn_catch_cases
    by (auto simp: Let_def rethrow_error_def split: option.splits)
qed

lemma post_function_preserves:
  assumes "\<And>p w. P w \<Longrightarrow> P (fst (ops p w))"
    "\<And>p w res. snd (ops p w) = Answer res \<Longrightarrow>
       throw_function res \<noteq> None \<or> ppr_status (result_message res) \<noteq> PP_QUEUED"
    "\<And>w. P w \<Longrightarrow> P (send_unavailable w)"
  shows "P w \<Longrightarrow> P (fst (fst (post_function uninit ops n node (w, q))))"
proof (induction n arbitrary: node w q)
  case 0
  then show ?case by simp
next
  case (Suc n)
  show ?case
  proof (cases node)
    case None
    then show ?thesis using Suc.prems by simp
  next
    case (Some p)
    obtain w' r where o: "ops p w = (w', r)" by force
    then have "P w'" using assms(1) [OF Suc.prems, of p] by simp
    then show ?thesis
      using post_callback_preserves [of P "post_function uninit ops n", OF Suc.IH assms(3)] assms(2) [of p w] o
      by (cases r) (simp_all add: Some)
  qed
qed

lemma run_preserves:
  assumes "\<And>node w q. P w \<Longrightarrow> P (fst (fst (f node (w, q))))" "P w"
  shows "P (fst (fst (run f (w, q))))"
proof -
  have n: "P w \<Longrightarrow> P (fst (fst (call_next f (w, q))))" for w q
    using assms(1) by (simp add: call_next_def)
  obtain w' q' e where r: "call_next f (w, q) = ((w', q'), e)" by (metis surj_pair)
  then show ?thesis using n [OF assms(2), of q] n [of w' q']
    by (cases e) (simp_all add: run_twice seq_def)
qed

lemma node_ops_answer:
  assumes "snd (node_send_proxy_publish cfg now r moved p w) = Answer res"
  shows "throw_function res = None" "ppr_status (result_message res) = PP_NOTAUTH"
  using assms
  by (auto simp: node_send_proxy_publish_def local_send_proxy_publish_def Let_def operation_result_ok_def
      make_ProxyPublishResponseMessage_def split: sum.splits node_error.splits operations_handler.splits ring_error.splits)

lemma node_ops_raise:
  "snd (node_send_proxy_publish cfg now r moved p w) = Raise e \<Longrightarrow> e \<noteq> Fuel"
  by (auto simp: node_send_proxy_publish_def local_send_proxy_publish_def Let_def
      split: sum.splits node_error.splits operations_handler.splits ring_error.splits)

lemma node_ops_frame:
  "stamps (fst (node_send_proxy_publish cfg now r moved p w)) = stamps w \<and>
   sent (fst (node_send_proxy_publish cfg now r moved p w)) = sent w"
  by (auto simp: node_send_proxy_publish_def local_send_proxy_publish_def Let_def
      split: sum.splits node_error.splits operations_handler.splits ring_error.splits)


lemma only_unavailable_refl: "only_unavailable w w"
  unfolding only_unavailable_def by (intro conjI refl exI [of _ "[]"]) simp_all

lemma only_unavailable_send: "only_unavailable w w' \<Longrightarrow> only_unavailable w (send_unavailable w')"
  unfolding only_unavailable_def
  by (elim conjE exE, rule conjI, simp add: send_unavailable_def Let_def)
    (rule_tac x = "rs @ [(make_PublishResponseMessage (conn_next_id w' + 1) (ident_id (pm_identity (post w'))))
       \<lparr>pr_status := PS_UNAVAILABLE\<rparr>]" in exI, simp add: send_unavailable_def Let_def)

lemma only_unavailable_node_ops:
  "only_unavailable w w' \<Longrightarrow> only_unavailable w (fst (node_send_proxy_publish cfg now r moved p w'))"
  using node_ops_frame [of cfg now r moved p w'] by (simp add: only_unavailable_def)

lemma run_settled:
  assumes "settles RF f" "lastNode q = 0"
  shows "snd (run f (w, q)) \<noteq> Some Fuel"
proof -
  have n: "settled (lastNode q') (call_next f (w', q'))" for w' q'
    using assms(1) unfolding settles_def call_next_def by (fastforce elim: settled_mono)
  obtain w' q' e where r: "call_next f (w, q) = ((w', q'), e)" by (metis surj_pair)
  then show ?thesis using n [of q w] n [of q' w'] by (cases e) (auto simp: run_twice seq_def settled_def)
qed

lemma local_post_outcome:
  "only_unavailable w (fst (handle_post_message cfg now shuf r uninit (node_send_proxy_publish cfg now r moved) result w)) \<and>
   snd (handle_post_message cfg now shuf r uninit (node_send_proxy_publish cfg now r moved) result w) \<noteq> Some Fuel"
proof -
  let ?ops = "node_send_proxy_publish cfg now r moved"
  have P: "only_unavailable w (fst (fst (run (post_function uninit ?ops RF) (w, q))))" for q
    by (rule run_preserves [where P = "only_unavailable w"])
      (auto intro!: post_function_preserves [where P = "only_unavailable w"] only_unavailable_node_ops only_unavailable_send
        only_unavailable_refl dest: node_ops_answer)
  have S: "settles RF (post_function uninit ?ops RF)"
    by (rule post_function_settles) (auto dest: node_ops_raise node_ops_answer(1))
  have F: "snd (run (post_function uninit ?ops RF) (w, quorum_logic_new [] nodes)) \<noteq> Some Fuel" for nodes
    by (rule run_settled [OF S]) (simp add: quorum_logic_new_def)
  show ?thesis
  proof (cases "find_quorum_for_operation cfg now shuf (node_heap_of w) (murmur_hash3_string (pm_queue_id (post w))) r")
    case (Inl e)
    then show ?thesis
      by (cases e) (simp_all add: handle_post_message_def only_unavailable_refl only_unavailable_send)
  next
    case (Inr nodes)
    obtain w' q' e where r: "run (post_function uninit ?ops RF) (w, quorum_logic_new [] nodes) = ((w', q'), e)"
      by (metis surj_pair)
    then show ?thesis using P [of "quorum_logic_new [] nodes"] F [of nodes]
      by (auto simp: handle_post_message_def Inr only_unavailable_refl only_unavailable_send split: option.split exn.split)
  qed
qed

section \<open>Runs with answers\<close>

lemma post_function_queued:
  assumes "k = Suc n" "ops p w = (w', a)" "answers_queued a c"
  shows "post_function uninit ops k (Some p) (w, q) =
     (case post_queued uninit p c (w', q) of
        (s, Some (Comparison e)) \<Rightarrow> node_failed (post_function uninit ops n) post_fail_function (Some p) s
      | r \<Rightarrow> r)"
proof -
  obtain res where res: "a = Answer res" "throw_function res = None"
    "ppr_status (result_message res) = PP_QUEUED" "ppr_clock (result_message res) = c"
    using assms(3) unfolding answers_queued_def by blast
  show ?thesis
    by (simp add: assms(1,2) res post_callback_def rethrow_error_def Let_def)
      (auto simp: post_queued_def Let_def split: sum.split)
qed

lemma run_post_stamps:
  assumes "ops a w = (w1, ra)" "answers_queued ra (map (\<lambda>c. to_protobuf c pb) va)"
    "ops b w1 = (w2, rb)" "answers_queued rb (map (\<lambda>c. to_protobuf c pb) vb)"
    "length va = RF" "length vb = RF" "length uninit = RF" "vector_clock_max va vb = Inr m"
  shows "\<exists>q. run (post_function uninit ops RF) (w, quorum_logic_new [] [Some a, Some b, c]) =
     ((w2\<lparr>stamps := stamps w2 @ [([Some a, Some b], m)]\<rparr>, q), None)"
proof -
  note fa = post_function_queued [of 3 2 ops a w w1, OF _ assms(1,2), simplified, of uninit]
  note fb = post_function_queued [of 3 2 ops b w1 w2, OF _ assms(3,4), simplified, of uninit]
  show ?thesis
    unfolding run_twice seq_def call_next_def RF_numbers(1)
    by (simp add: fa fb quorum_logic_new_def post_queued_def node_success_def Let_def of_net_to_protobuf
        assms operation_succeeded_def do_stamp_message_def)
qed

lemma run_bad_clock:
  assumes "ops a w = (w1, ra)" "answers_queued ra ca" "RF < length ca"
    "ops b w1 = (w2, rb)" "answers_queued rb cb" "length cb \<le> RF"
  shows "snd (run (post_function uninit ops RF) (w, quorum_logic_new [] [Some a, Some b, c])) = Some Undefined"
proof -
  note fa = post_function_queued [of 3 2 ops a w w1, OF _ assms(1,2), simplified, of uninit]
  note fb = post_function_queued [of 2 1 ops b w1 w2, OF _ assms(4,5), simplified, of uninit]
  show ?thesis
    using assms(3,6) unfolding run_twice seq_def call_next_def RF_numbers(1)
    by (simp add: fa fb quorum_logic_new_def post_queued_def node_success_def Let_def
        vector_clock_of_net_def operation_succeeded_def node_failed_def can_continue_def call_next_def)
qed

section \<open>A ring of one node\<close>

lemma quorum_single:
  assumes "ring_by_range r = [(k, p)]" "is_alive cfg now (h p)" "\<And>xs. mset (shuf xs) = mset xs"
  shows "find_nodes_for_key key r = Inr [p, p, p]"
    "find_quorum_for_operation cfg now shuf h key r = Inr [Some p, None, None]"
proof -
  show nodes: "find_nodes_for_key key r = Inr [p, p, p]"
    by (simp add: find_nodes_for_key_def Let_def find_secondary_node_def find_primary_node_def
        find_tertiary_node_def upper_bound_def assms(1))
  have "shuf [p, p, p] = [p, p, p]"
    using assms(3) [of "[p, p, p]"] mset_eq_length [OF assms(3) [of "[p, p, p]"]] mset_eq_setD [OF assms(3) [of "[p, p, p]"]]
    by (auto simp: numeral_3_eq_3 length_Suc_conv)
  then show "find_quorum_for_operation cfg now shuf h key r = Inr [Some p, None, None]"
    by (simp add: find_quorum_for_operation_def nodes Let_def assms(2) compress_quorum_def)
qed

lemma single_node_post:
  assumes "was_successful result" "ring_by_range r = [(k, p)]" "is_alive cfg now (node_heap_of w p)"
    "\<And>xs. mset (shuf xs) = mset xs" "operations_handler (node_heap_of w p) = Some local_node_operations"
    "uuid_from_bytes (pm_message_id (post w)) = Inr i"
  shows "\<exists>w'. handle_post_message cfg now shuf r uninit (node_send_proxy_publish cfg now r moved) result w = (w', Some Undefined) \<and>
     managers w' p = enqueue_message now (murmur_hash3_string (pm_queue_id (post w))) i (pm_content (post w))
                       (pm_ttl (post w)) (managers w p) \<and>
     clock (node_clock_of (node_heap_of w' p)) = clock (node_clock_of (node_heap_of w p)) + 1 \<and> sent w' = sent w"
proof -
  have fuel: "post_function uninit ops 3 = post_function uninit ops (Suc (Suc 1))" for ops
    by (simp add: numeral_3_eq_3)
  show ?thesis
    by (simp add: handle_post_message_def assms(1,5,6) quorum_single [of r k p cfg now "node_heap_of w" shuf, OF assms(2,3,4)] run_twice seq_def call_next_def
        quorum_logic_new_def fuel node_send_proxy_publish_def operations_def local_send_proxy_publish_def Let_def
        post_callback_def rethrow_error_def operation_result_ok_def make_ProxyPublishResponseMessage_def
        node_failed_def can_continue_def)
qed

section \<open>Properties\<close>


text \<open>
  A node whose clock has too many entries is counted as a success before its clock is
  refused.  If the next node answers properly, two successes are counted with one clock in
  hand, and the second clock is read beyond the end of the vector.
\<close>

theorem bad_clock_undefined:
  assumes "was_successful result"
    "find_quorum_for_operation cfg now shuf (node_heap_of w) (murmur_hash3_string (pm_queue_id (post w))) r =
       Inr [Some a, Some b, c]"
    "ops a w = (w1, ra)" "answers_queued ra ca" "RF < length ca"
    "ops b w1 = (w2, rb)" "answers_queued rb cb" "length cb \<le> RF"
  shows "snd (handle_post_message cfg now shuf r uninit ops result w) = Some Undefined"
proof -
  obtain s where "run (post_function uninit ops RF) (w, quorum_logic_new [] [Some a, Some b, c]) = (s, Some Undefined)"
    using run_bad_clock [OF assms(3-8), of uninit c] by (metis prod.collapse)
  then show ?thesis using assms(1,2) by (cases s) (simp add: handle_post_message_def)
qed

text \<open>
  C29: with the operations the program has, no publication succeeds: whatever the ring, the
  shuffle and the message, nothing is ever stamped and the client receives nothing but
  \<open>UNAVAILABLE\<close>; the recursion between the stored functions always ends.
\<close>

theorem local_publish_never_succeeds:
  "only_unavailable w (fst (handle_post_message cfg now shuf r uninit (node_send_proxy_publish cfg now r moved) result w)) \<and>
   snd (handle_post_message cfg now shuf r uninit (node_send_proxy_publish cfg now r moved) result w) \<noteq> Some Fuel"
  by (rule local_post_outcome)

text \<open>
  on a ring with this node alone, a well-formed message is enqueued exactly once, in
  the queue that belongs to the hash of its name, and the clock of the node advances; the
  answer lacks a status and is taken for a refusal, and the retry dereferences the null
  pointer in the second slot of the quorum.
\<close>

theorem single_node_publish:
  assumes "was_successful result" "ring_by_range r = [(k, p)]" "is_alive cfg now (node_heap_of w p)"
    "\<And>xs. mset (shuf xs) = mset xs" "operations_handler (node_heap_of w p) = Some local_node_operations"
    "uuid_from_bytes (pm_message_id (post w)) = Inr i"
  shows "\<exists>w'. handle_post_message cfg now shuf r uninit (node_send_proxy_publish cfg now r moved) result w = (w', Some Undefined) \<and>
     managers w' p = enqueue_message now (murmur_hash3_string (pm_queue_id (post w))) i (pm_content (post w))
                       (pm_ttl (post w)) (managers w p) \<and>
     clock (node_clock_of (node_heap_of w' p)) = clock (node_clock_of (node_heap_of w p)) + 1 \<and> sent w' = sent w"
  using assms by (rule single_node_post)

section \<open>Examples\<close>

lemma sample_alive: "is_alive sample_settings 0 (node_heap_of sample_world p)"
  by (simp add: is_alive_def is_self_def sample_world_def init_local_operations_def sample_heap_def node_new_def
      sample_settings_def settings_new_def Let_def)

lemma sample_post_quorum:
  "find_quorum_for_operation sample_settings 0 (\<lambda>_. [2, 4, 3]) (node_heap_of sample_world) key (sample_ring [4, 2, 3]) =
     Inr [Some 2, Some 4, Some 3]"
proof -
  obtain ps where "find_nodes_for_key key (sample_ring [4, 2, 3]) = Inr ps"
    using find_nodes_shape [of "sample_ring [4, 2, 3]" key] by (simp add: sample_ring3)
  then show ?thesis
    by (simp add: find_quorum_for_operation_def Let_def sample_alive compress_quorum_def)
qed

lemma sample_ops_queued:
  "sample_ops c2 c4 2 w = (w, snd (sample_ops c2 c4 2 w))" "answers_queued (snd (sample_ops c2 c4 2 w)) c2"
  "sample_ops c2 c4 4 w = (w, snd (sample_ops c2 c4 4 w))" "answers_queued (snd (sample_ops c2 c4 4 w)) c4"
  by (simp_all add: sample_ops_def answers_queued_def operation_result_ok_def)


theorem bad_clock_undefined_witness:
  "snd (handle_post_message sample_settings 0 (\<lambda>_. [2, 4, 3]) (sample_ring [4, 2, 3]) vector_clock_default
     (sample_ops (replicate 4 \<lparr>pb_node_id = 0, pb_generation = 0, pb_clock = 0\<rparr>) []) success sample_world) = Some Undefined"
  by (rule bad_clock_undefined [OF _ sample_post_quorum sample_ops_queued(1,2) _ sample_ops_queued(3,4)])
    (simp_all add: RF_def)

theorem single_node_publish_witness:
  "\<exists>w'. handle_post_message sample_settings 0 id (sample_ring [2]) vector_clock_default
       (node_send_proxy_publish sample_settings 0 (sample_ring [2]) []) success sample_world = (w', Some Undefined) \<and>
     managers w' 2 = enqueue_message 0 (murmur_hash3_string (pm_queue_id (post sample_world)))
       (map char_byte (replicate 16 (CHR ''x''))) (pm_content (post sample_world)) (pm_ttl (post sample_world))
       (managers sample_world 2) \<and>
     clock (node_clock_of (node_heap_of w' 2)) = clock (node_clock_of (node_heap_of sample_world 2)) + 1 \<and>
     sent w' = sent sample_world"
  by (rule single_node_publish [where k = "U128 200 0", OF _ _ sample_alive])
    (simp_all add: sample_ring_def add_node_def check_no_conflict_def ring_new_def sample_heap_def Let_def node_new_def
      sample_world_def init_local_operations_def uuid_from_bytes_def)

end
