(* ===== verification/Account.thy ===== *)
theory Account
  imports Settings
begin

text \<open>
  \<open>node/src/user_account.cpp\<close>, \<open>node/src/cassandra_storage.cpp\<close> and
  \<open>node/src/cassandra_storage_async_helpers.cpp\<close>: user accounts and their storage.  The
  database driver is a parameter: connecting to the cluster returns the text of an error,
  if any, and executing a statement with its bound values returns an error or the rows, and
  the new state \<open>'db\<close> of the database.  The digest and the hex encoder of the crypto
  library are the parameters of \<open>sha256_hex_string\<close>.
\<close>

section \<open>The driver\<close>

datatype cass_value = CassText string | CassInt "32 word"

type_synonym cass_row = "(string \<times> cass_value) list"

record 'db cass_driver =
  cass_cluster_connect :: "'db \<Rightarrow> string option"
  cass_session_execute :: "string \<Rightarrow> cass_value list \<Rightarrow> 'db \<Rightarrow> (string + cass_row list) \<times> 'db"

section \<open>Accounts\<close>

record user_account =
  name_hash :: string
  username :: string
  pw_hash :: string
  user_level :: "32 word"

definition user_account_default :: user_account where
  "user_account_default = \<lparr>name_hash = '''', username = '''', pw_hash = '''', user_level = 0\<rparr>"

definition user_account_new :: "string \<Rightarrow> string \<Rightarrow> string \<Rightarrow> 32 word \<Rightarrow> user_account" where
  "user_account_new nameHash userName pwHash level =
     \<lparr>name_hash = nameHash, username = userName, pw_hash = pwHash, user_level = level\<rparr>"

datatype storage_error = storage_error string

record find_user_result =
  user_found :: bool
  fur_error :: "storage_error option"
  account :: user_account

section \<open>Statements that wait\<close>

definition KEYSPACE_NAME :: string where
  "KEYSPACE_NAME = ''sopmq''"

fun contact_points :: "string list \<Rightarrow> string" where
  "contact_points [] = ''''"
| "contact_points [ip] = ip"
| "contact_points (ip # ips) = ip @ '','' @ contact_points ips"

definition CREATE_STATEMENTS :: "string list" where
  "CREATE_STATEMENTS =
     [''CREATE KEYSPACE IF NOT EXISTS '' @ KEYSPACE_NAME @
        '' WITH REPLICATION = { 'class' : 'SimpleStrategy', 'replication_factor' : 3 };'',
      ''CREATE TABLE IF NOT EXISTS '' @ KEYSPACE_NAME @ ''.users ('' @
        ''uname_hash varchar PRIMARY KEY, '' @ ''username varchar, '' @ ''pw_hash varchar, '' @
        ''user_level int '' @ '');'']"

definition throw_on_error :: "string + 'a \<Rightarrow> storage_error + 'a" where
  "throw_on_error future = (case future of Inl message \<Rightarrow> Inl (storage_error message) | Inr x \<Rightarrow> Inr x)"

definition connect_session :: "'db cass_driver \<Rightarrow> 'db \<Rightarrow> storage_error + unit" where
  "connect_session drv db =
     throw_on_error (case cass_cluster_connect drv db of Some message \<Rightarrow> Inl message | None \<Rightarrow> Inr ())"

definition execute_statement :: "'db cass_driver \<Rightarrow> string \<Rightarrow> 'db \<Rightarrow> (storage_error + unit) \<times> 'db" where
  "execute_statement drv statementText db =
     (case cass_session_execute drv statementText [] db of
        (future, db) \<Rightarrow> (andthen (throw_on_error future) (\<lambda>_. Inr ()), db))"

fun execute_all :: "'db cass_driver \<Rightarrow> string list \<Rightarrow> 'db \<Rightarrow> (storage_error + unit) \<times> 'db" where
  "execute_all drv [] db = (Inr (), db)"
| "execute_all drv (statement # rest) db =
     (case execute_statement drv statement db of
        (Inl e, db) \<Rightarrow> (Inl e, db)
      | (Inr _, db) \<Rightarrow> execute_all drv rest db)"

definition cassandra_init :: "'db cass_driver \<Rightarrow> 'db \<Rightarrow> (storage_error + unit) \<times> 'db" where
  "cassandra_init drv db =
     (case connect_session drv db of
        Inl e \<Rightarrow> (Inl e, db)
      | Inr _ \<Rightarrow> execute_all drv CREATE_STATEMENTS db)"

text \<open>Bound strings pass through \<open>c_str()\<close>: they end at the first zero byte.\<close>

definition c_string :: "string \<Rightarrow> string" where
  "c_string s = takeWhile (\<lambda>c. c \<noteq> CHR 0x00) s"

definition INSERT_USER :: string where
  "INSERT_USER = ''INSERT INTO '' @ KEYSPACE_NAME @ ''.users'' @
     ''(uname_hash, username, pw_hash, user_level) VALUES (?, ?, ?, ?);''"

definition create_user ::
  "'db cass_driver \<Rightarrow> string \<Rightarrow> string \<Rightarrow> string \<Rightarrow> 32 word \<Rightarrow> 'db \<Rightarrow> (storage_error + unit) \<times> 'db" where
  "create_user drv usernameHash userName pwHash userLevel db =
     (case connect_session drv db of
        Inl e \<Rightarrow> (Inl e, db)
      | Inr _ \<Rightarrow>
          (case cass_session_execute drv INSERT_USER
                  [CassText (c_string usernameHash), CassText (c_string userName), CassText (c_string pwHash),
                   CassInt userLevel] db of
             (future, db) \<Rightarrow> (andthen (throw_on_error future) (\<lambda>_. Inr ()), db)))"

section \<open>Columns\<close>

text \<open>
  A value of another type leaves the local variable as it was; what it held is the
  argument \<open>uninit\<close>.
\<close>

definition get_string_column_value :: "string \<Rightarrow> cass_row \<Rightarrow> string \<Rightarrow> string" where
  "get_string_column_value uninit row colname =
     (case map_of row colname of
        None \<Rightarrow> ''''
      | Some (CassText s) \<Rightarrow> s
      | Some _ \<Rightarrow> uninit)"

definition get_int_column_value :: "32 word \<Rightarrow> cass_row \<Rightarrow> string \<Rightarrow> 32 word" where
  "get_int_column_value uninit row colname =
     (case map_of row colname of
        None \<Rightarrow> 0
      | Some (CassInt i) \<Rightarrow> i
      | Some _ \<Rightarrow> uninit)"

section \<open>Asynchronous queries\<close>

text \<open>
  A query runs through three callbacks of the driver.  Its effects, in order: the result
  callback with an error or the rows, the request to close the session, and the deletion of
  the query state.
\<close>

record async_query_state =
  query :: string
  params :: "string list"
  qs_error :: "storage_error option"
  session :: bool
  rows :: "cass_row list"

datatype cass_event =
    Result_Callback async_query_state
  | Close_Session
  | Delete_State

definition after_session_closed :: "cass_event list" where
  "after_session_closed = [Delete_State]"

definition check_async_future_error :: "string option \<Rightarrow> async_query_state \<Rightarrow> cass_event list option" where
  "check_async_future_error f qstate =
     (case f of
        Some message \<Rightarrow>
          (let qstate = qstate\<lparr>qs_error := Some (storage_error message)\<rparr>
           in if \<not> session qstate then Some [Result_Callback qstate, Delete_State]
              else Some ([Result_Callback qstate, Close_Session] @ after_session_closed))
      | None \<Rightarrow> None)"

definition after_result :: "string + cass_row list \<Rightarrow> async_query_state \<Rightarrow> cass_event list" where
  "after_result f qstate =
     (case check_async_future_error (case f of Inl m \<Rightarrow> Some m | Inr _ \<Rightarrow> None) qstate of
        Some evs \<Rightarrow> evs
      | None \<Rightarrow>
          (let qstate = qstate\<lparr>rows := (case f of Inr rs \<Rightarrow> rs | Inl _ \<Rightarrow> [])\<rparr>
           in [Result_Callback qstate, Close_Session] @ after_session_closed))"

definition after_cluster_connect ::
  "'db cass_driver \<Rightarrow> string option \<Rightarrow> async_query_state \<Rightarrow> 'db \<Rightarrow> cass_event list \<times> 'db" where
  "after_cluster_connect drv f qstate db =
     (case check_async_future_error f qstate of
        Some evs \<Rightarrow> (evs, db)
      | None \<Rightarrow>
          (let qstate = qstate\<lparr>session := True\<rparr>
           in case cass_session_execute drv (query qstate) (map (CassText \<circ> c_string) (params qstate)) db of
                (future, db) \<Rightarrow> (after_result future qstate, db)))"

definition async_query :: "'db cass_driver \<Rightarrow> async_query_state \<Rightarrow> 'db \<Rightarrow> cass_event list \<times> 'db" where
  "async_query drv qstate db = after_cluster_connect drv (cass_cluster_connect drv db) qstate db"

section \<open>Finding users\<close>

definition find_user_callback :: "string \<Rightarrow> 32 word \<Rightarrow> async_query_state \<Rightarrow> find_user_result" where
  "find_user_callback ustr uval qstate =
     (if qs_error qstate \<noteq> None
      then \<lparr>user_found = False, fur_error = qs_error qstate, account = user_account_default\<rparr>
      else (case rows qstate of
              row # _ \<Rightarrow>
                \<lparr>user_found = True, fur_error = None,
                 account = user_account_new (get_string_column_value ustr row ''uname_hash'')
                             (get_string_column_value ustr row ''username'')
                             (get_string_column_value ustr row ''pw_hash'')
                             (get_int_column_value uval row ''user_level'')\<rparr>
            | [] \<Rightarrow> \<lparr>user_found = False, fur_error = None, account = user_account_default\<rparr>))"

definition SELECT_USER :: string where
  "SELECT_USER = ''SELECT * FROM '' @ KEYSPACE_NAME @ ''.users WHERE uname_hash = ?''"

definition find_user_query :: "string \<Rightarrow> async_query_state" where
  "find_user_query usernameHash =
     \<lparr>query = SELECT_USER, params = [usernameHash], qs_error = None, session = False, rows = []\<rparr>"

definition find_user ::
  "'db cass_driver \<Rightarrow> string \<Rightarrow> 32 word \<Rightarrow> string \<Rightarrow> 'db \<Rightarrow> find_user_result list \<times> 'db" where
  "find_user drv ustr uval usernameHash db =
     (case async_query drv (find_user_query usernameHash) db of
        (evs, db) \<Rightarrow> (concat (map (\<lambda>e. case e of Result_Callback qs \<Rightarrow> [find_user_callback ustr uval qs] | _ \<Rightarrow> []) evs), db))"

section \<open>Account operations\<close>

definition account_create ::
  "(u8 list \<Rightarrow> u8 list) \<Rightarrow> (u8 list \<Rightarrow> string) \<Rightarrow> 'db cass_driver \<Rightarrow> string \<Rightarrow> string \<Rightarrow> 32 word \<Rightarrow> 'db
     \<Rightarrow> (storage_error + user_account) \<times> 'db" where
  "account_create sha hex drv userName password userLevel db =
     (let userHex = sha256_hex_string sha hex userName;
          pwHex = sha256_hex_string sha hex password
      in case create_user drv userHex userName pwHex userLevel db of
           (r, db) \<Rightarrow> (andthen r (\<lambda>_. Inr (user_account_new userHex userName pwHex userLevel)), db))"

text \<open>The calls of \<open>authCallback\<close> that one lookup result causes, in order.\<close>

definition user_lookup_cb ::
  "(u8 list \<Rightarrow> u8 list) \<Rightarrow> (u8 list \<Rightarrow> string) \<Rightarrow> string \<Rightarrow> string \<Rightarrow> find_user_result \<Rightarrow> bool list" where
  "user_lookup_cb sha hex challengeBytes passwordChallengeHashHexString fur =
     (if \<not> user_found fur \<or> user_level (account fur) = 0 then [False] else []) @
     (let goodPwHashAndChallenge = pw_hash (account fur) @ challengeBytes;
          goodPwHashAndChallenge = sha256_hex_string sha hex goodPwHashAndChallenge
      in if goodPwHashAndChallenge = passwordChallengeHashHexString then [True] else [False])"

definition is_authorized ::
  "(u8 list \<Rightarrow> u8 list) \<Rightarrow> (u8 list \<Rightarrow> string) \<Rightarrow> 'db cass_driver \<Rightarrow> string \<Rightarrow> 32 word \<Rightarrow> string \<Rightarrow> string \<Rightarrow> string
     \<Rightarrow> 'db \<Rightarrow> bool list \<times> 'db" where
  "is_authorized sha hex drv ustr uval nameHashHexString challengeBytes passwordChallengeHashHexString db =
     (case find_user drv ustr uval nameHashHexString db of
        (furs, db) \<Rightarrow> (concat (map (user_lookup_cb sha hex challengeBytes passwordChallengeHashHexString) furs), db))"

definition account_find :: "'db cass_driver \<Rightarrow> string \<Rightarrow> 32 word \<Rightarrow> string \<Rightarrow> 'db \<Rightarrow> (bool \<times> user_account) list \<times> 'db" where
  "account_find drv ustr uval nameHashHexString db =
     (case find_user drv ustr uval nameHashHexString db of
        (furs, db) \<Rightarrow>
          (map (\<lambda>fur. if \<not> user_found fur then (False, user_account_default) else (True, account fur)) furs, db))"

section \<open>Contract of the driver\<close>

text \<open>
  What the statements of the program document for a cluster that is reachable: a row that
  was inserted is the one found under its primary key.
\<close>

definition user_row :: "string \<Rightarrow> string \<Rightarrow> string \<Rightarrow> 32 word \<Rightarrow> cass_row" where
  "user_row h u p l =
     [(''uname_hash'', CassText h), (''username'', CassText u), (''pw_hash'', CassText p), (''user_level'', CassInt l)]"

definition stores_users :: "'db cass_driver \<Rightarrow> bool" where
  "stores_users drv \<longleftrightarrow>
     (\<forall>db. cass_cluster_connect drv db = None) \<and>
     (\<forall>h u p l db. \<exists>db'.
        cass_session_execute drv INSERT_USER [CassText h, CassText u, CassText p, CassInt l] db = (Inr [], db') \<and>
        cass_session_execute drv SELECT_USER [CassText h] db' = (Inr [user_row h u p l], db'))"

text \<open>A table in memory, which holds the row inserted last.\<close>

definition last_row_driver :: "cass_row list cass_driver" where
  "last_row_driver =
     \<lparr>cass_cluster_connect = \<lambda>_. None,
      cass_session_execute = \<lambda>q vs db.
        if q = INSERT_USER then
          (case vs of
             [CassText h, CassText u, CassText p, CassInt l] \<Rightarrow> (Inr [], [user_row h u p l])
           | _ \<Rightarrow> (Inl ''Invalid amount of bind variables'', db))
        else (Inr db, db)\<rparr>"

section \<open>Lemmas\<close>

lemma c_string_id [simp]: "CHR 0x00 \<notin> set s \<Longrightarrow> c_string s = s"
  by (auto simp: c_string_def takeWhile_eq_all_conv)

lemma statements_differ [simp]: "SELECT_USER \<noteq> INSERT_USER" "INSERT_USER \<noteq> SELECT_USER"
proof -
  have "hd SELECT_USER = CHR ''S''" "hd INSERT_USER = CHR ''I''" by (simp_all add: SELECT_USER_def INSERT_USER_def)
  then show "SELECT_USER \<noteq> INSERT_USER" "INSERT_USER \<noteq> SELECT_USER" by auto
qed

lemma async_query_events:
  assumes "\<not> session qs"
  shows "\<exists>qs'. fst (async_query drv qs db) =
    Result_Callback qs' #
    (if cass_cluster_connect drv db = None then [Close_Session, Delete_State] else [Delete_State])"
  using assms
  by (auto simp: async_query_def after_cluster_connect_def check_async_future_error_def after_result_def
      after_session_closed_def Let_def split: option.splits prod.splits sum.splits)

lemma find_user_found:
  assumes "cass_cluster_connect drv db = None"
    "cass_session_execute drv SELECT_USER [CassText (c_string h)] db = (Inr [user_row h u p l], db)"
  shows "find_user drv ustr uval h db =
    ([\<lparr>user_found = True, fur_error = None, account = user_account_new h u p l\<rparr>], db)"
  using assms
  by (simp add: find_user_def async_query_def after_cluster_connect_def check_async_future_error_def after_result_def
      after_session_closed_def Let_def find_user_query_def find_user_callback_def get_string_column_value_def
      get_int_column_value_def user_row_def)

lemma find_user_once:
  "\<exists>fur. fst (find_user drv ustr uval h db) = [fur] \<and> (user_found fur \<or> account fur = user_account_default)"
proof -
  have "\<not> session (find_user_query h)" by (simp add: find_user_query_def)
  from async_query_events [OF this, of drv db]
  obtain qs' where "fst (async_query drv (find_user_query h) db) =
      Result_Callback qs' # (if cass_cluster_connect drv db = None then [Close_Session, Delete_State] else [Delete_State])"
    by (rule exE)
  then have "fst (find_user drv ustr uval h db) = [find_user_callback ustr uval qs']"
    by (cases "async_query drv (find_user_query h) db") (simp add: find_user_def)
  moreover have "user_found (find_user_callback ustr uval qs') \<or>
      account (find_user_callback ustr uval qs') = user_account_default"
    by (simp add: find_user_callback_def split: list.split)
  ultimately show ?thesis by blast
qed

lemma create_login:
  assumes "stores_users drv" "\<forall>bs. CHR 0x00 \<notin> set (hex bs)" "CHR 0x00 \<notin> set userName" "level \<noteq> 0"
  shows "\<exists>db'. account_create sha hex drv userName password level db =
      (Inr (user_account_new (sha256_hex_string sha hex userName) userName (sha256_hex_string sha hex password) level), db') \<and>
    is_authorized sha hex drv ustr uval (sha256_hex_string sha hex userName) challenge response db' =
      ([response = sha256_hex_string sha hex (sha256_hex_string sha hex password @ challenge)], db')"
proof -
  let ?h = "sha256_hex_string sha hex userName" and ?p = "sha256_hex_string sha hex password"
  have hex: "c_string (sha256_hex_string sha hex x) = sha256_hex_string sha hex x" for x
    using assms(2) by (simp add: sha256_hex_string_def hex_encode_def)
  obtain db' where db': "cass_session_execute drv INSERT_USER [CassText ?h, CassText userName, CassText ?p, CassInt level] db = (Inr [], db')"
      "cass_session_execute drv SELECT_USER [CassText ?h] db' = (Inr [user_row ?h userName ?p level], db')"
    using assms(1) unfolding stores_users_def by blast
  have c: "cass_cluster_connect drv x = None" for x using assms(1) unfolding stores_users_def by blast
  have "create_user drv ?h userName ?p level db = (Inr (), db')"
    by (simp add: create_user_def connect_session_def c throw_on_error_def hex assms(3) db'(1))
  moreover have "find_user drv ustr uval ?h db' =
      ([\<lparr>user_found = True, fur_error = None, account = user_account_new ?h userName ?p level\<rparr>], db')"
    by (rule find_user_found) (simp_all add: c hex db'(2))
  ultimately show ?thesis
    using assms(4) by (auto simp: account_create_def is_authorized_def user_lookup_cb_def user_account_new_def Let_def)
qed

section \<open>Properties\<close>

text \<open>
  Whatever the driver returns, a query makes its result callback exactly once and
  first, closes the session exactly when one was opened, and deletes its state exactly once
  and last, so that nothing uses the state after it is gone.
\<close>

lemma query_answers_once:
  "\<exists>qs'. fst (async_query drv (find_user_query h) db) =
    Result_Callback qs' #
    (if cass_cluster_connect drv db = None then [Close_Session, Delete_State] else [Delete_State])"
  by (rule async_query_events) (simp add: find_user_query_def)

text \<open>
  C13: an account that was created with a non-zero level can log in with its password and
  only with it: the lookup answers once, and positively exactly for the digest of the
  password digest followed by the challenge.
\<close>

theorem create_then_login:
  assumes "stores_users drv" "\<forall>bs. CHR 0x00 \<notin> set (hex bs)" "CHR 0x00 \<notin> set userName" "level \<noteq> 0"
  shows "\<exists>db'. account_create sha hex drv userName password level db =
      (Inr (user_account_new (sha256_hex_string sha hex userName) userName (sha256_hex_string sha hex password) level), db') \<and>
    is_authorized sha hex drv ustr uval (sha256_hex_string sha hex userName) challenge response db' =
      ([response = sha256_hex_string sha hex (sha256_hex_string sha hex password @ challenge)], db')"
  using assms by (rule create_login)

lemma last_row_stores: "stores_users last_row_driver"
  by (simp add: stores_users_def last_row_driver_def)

theorem create_then_login_witness:
  "\<exists>db'. account_create id (\<lambda>bs. concat (replicate (length bs) ''ab'')) last_row_driver ''bob'' ''pw'' 1 [] =
      (Inr (user_account_new ''ababab'' ''bob'' ''abab'' 1), db') \<and>
    is_authorized id (\<lambda>bs. concat (replicate (length bs) ''ab'')) last_row_driver [] 0 ''ababab'' ''c'' ''ababababab'' db' =
      ([True], db')"
  using create_then_login [OF last_row_stores, where hex = "\<lambda>bs. concat (replicate (length bs) ''ab'')"
      and sha = id and userName = "''bob''" and password = "''pw''" and level = 1 and db = "[]" and ustr = "[]"
      and uval = 0 and challenge = "''c''" and response = "''ababababab''"]
  by (simp add: sha256_hex_string_def hex_encode_def)

text \<open>
  C31: when the account is not found, whether because it does not exist or because the
  database cannot be reached, the callback is called twice: after the refusal the digest of
  the challenge alone, which everyone can compute, is accepted.
\<close>

theorem unknown_user_accepted:
  assumes "fst (find_user drv ustr uval name db) = [fur]" "\<not> user_found fur"
  shows "fst (is_authorized sha hex drv ustr uval name challenge (sha256_hex_string sha hex challenge) db) = [False, True]"
proof -
  have "account fur = user_account_default" using find_user_once [of drv ustr uval name db] assms by auto
  then show ?thesis
    using assms by (auto simp: is_authorized_def user_lookup_cb_def user_account_default_def split: prod.splits)
qed

theorem unknown_user_accepted_witness:
  "fst (is_authorized id (map byte_char) last_row_driver [] 0 ''eve'' ''c'' (sha256_hex_string id (map byte_char) ''c'') []) = [False, True]"
  by (rule unknown_user_accepted [where fur = "\<lparr>user_found = False, fur_error = None, account = user_account_default\<rparr>"])
    (simp_all add: find_user_def async_query_def after_cluster_connect_def check_async_future_error_def after_result_def
      after_session_closed_def Let_def find_user_query_def find_user_callback_def last_row_driver_def)

end
