(* ===== verification/Server_Auth.thy ===== *)
theory Server_Auth
  imports Wire Settings
begin

text \<open>
  \<open>node/src/connection_in.cpp\<close>, \<open>node/src/csunauthenticated.cpp\<close> and the connection handling
  of \<open>node/src/csauthenticated.cpp\<close>: the server side of a connection, from the challenge to
  the authenticated state.  The handlers the dispatchers hold are named by a datatype.
  \<open>user_account::is_authorized\<close> is the argument \<open>authorize\<close>, which gives the calls it makes
  of its callback; each of them posts a task to the io service.  Sending and reading are
  asynchronous: the state records the messages handed to the connection and the reads that
  are outstanding, with the state object whose dispatcher each of them uses.
\<close>

section \<open>State\<close>

datatype server_handler =
    handle_get_challenge_message
  | handle_answer_challenge_message
  | unauth_unhandled_message
  | handle_post_message_handler
  | auth_unhandled_message

datatype conn_state = Unauthenticated | Authenticated

datatype auth_task = Post_Success AnswerChallengeMessage | Post_Failure AnswerChallengeMessage

record connection_in =
  ci_next_id :: u32
  ci_sent :: "(message_type \<times> message) list"
  ci_closed :: bool
  ci_reads :: "conn_state list"
  ci_state :: conn_state
  un_dispatcher :: "server_handler message_dispatcher"
  auth_type :: GetChallengeType
  un_challenge :: string
  closeAfterTransmission :: bool
  au_dispatcher :: "server_handler message_dispatcher"
  ci_posted :: "auth_task list"
  ci_posts :: "PublishMessage list"

text \<open>The members of \<open>csunauthenticated\<close> after its constructor; the type is uninitialised.\<close>

definition connection_in_new :: "GetChallengeType \<Rightarrow> connection_in" where
  "connection_in_new uninit =
     \<lparr>ci_next_id = 0, ci_sent = [], ci_closed = False, ci_reads = [], ci_state = Unauthenticated,
      un_dispatcher = message_dispatcher_new (Some unauth_unhandled_message), auth_type = uninit,
      un_challenge = '''', closeAfterTransmission = False,
      au_dispatcher = message_dispatcher_new (Some auth_unhandled_message), ci_posted = [], ci_posts = []\<rparr>"

definition ci_get_next_id :: "connection_in \<Rightarrow> u32 \<times> connection_in" where
  "ci_get_next_id s = (let s = s\<lparr>ci_next_id := ci_next_id s + 1\<rparr> in (ci_next_id s, s))"

definition ci_send :: "message_type \<Rightarrow> message \<Rightarrow> connection_in \<Rightarrow> connection_in" where
  "ci_send t m s = s\<lparr>ci_sent := ci_sent s @ [(t, m)]\<rparr>"

definition ci_read :: "conn_state \<Rightarrow> connection_in \<Rightarrow> connection_in" where
  "ci_read k s = s\<lparr>ci_reads := ci_reads s @ [k]\<rparr>"

definition ci_handle_error :: "network_error \<Rightarrow> connection_in \<Rightarrow> connection_in" where
  "ci_handle_error e s = s\<lparr>ci_closed := True\<rparr>"

section \<open>The authenticated state\<close>

definition csauthenticated_start :: "connection_in \<Rightarrow> connection_in" where
  "csauthenticated_start s =
     ci_read Authenticated
       (s\<lparr>au_dispatcher := set_handler MT_PUBLISH (Some handle_post_message_handler) (au_dispatcher s)\<rparr>)"

definition csauthenticated_handle_read_result :: "network_operation_result \<Rightarrow> connection_in \<Rightarrow> connection_in" where
  "csauthenticated_handle_read_result result s =
     (if \<not> was_successful result then ci_handle_error (get_error result) s else ci_read Authenticated s)"

definition csauthenticated_handle_write_result :: "network_operation_result \<Rightarrow> connection_in \<Rightarrow> connection_in" where
  "csauthenticated_handle_write_result result s =
     (if \<not> was_successful result then ci_handle_error (get_error result) s else s)"

definition csauthenticated_unhandled :: "connection_in \<Rightarrow> connection_in" where
  "csauthenticated_unhandled = ci_handle_error (network_error ''Unexpected message received during operation'')"

text \<open>The new state is started before it is stored.\<close>

definition change_state_authenticated :: "connection_in \<Rightarrow> connection_in" where
  "change_state_authenticated s = (csauthenticated_start s)\<lparr>ci_state := Authenticated\<rparr>"

section \<open>The unauthenticated state\<close>

definition CHALLENGE_SIZE :: int where
  "CHALLENGE_SIZE = 1024"

definition csunauthenticated_unhandled :: "connection_in \<Rightarrow> connection_in" where
  "csunauthenticated_unhandled = ci_handle_error (network_error ''Unexpected message received during authentication'')"

definition csunauthenticated_start :: "connection_in \<Rightarrow> connection_in" where
  "csunauthenticated_start s =
     ci_read Unauthenticated
       (s\<lparr>un_dispatcher := set_handler MT_GET_CHALLENGE (Some handle_get_challenge_message) (un_dispatcher s)\<rparr>)"

definition generate_challenge_response :: "(nat \<Rightarrow> u8) \<Rightarrow> u32 \<Rightarrow> connection_in \<Rightarrow> connection_in" where
  "generate_challenge_response dist replyTo s =
     (case ci_get_next_id s of
        (i, s) \<Rightarrow>
          (let response = make_ChallengeResponseMessage i replyTo;
               s = s\<lparr>un_challenge := random_bytes dist CHALLENGE_SIZE\<rparr>;
               response = response\<lparr>challenge := un_challenge s\<rparr>;
               s = s\<lparr>un_dispatcher := set_handler MT_GET_CHALLENGE None (un_dispatcher s)\<rparr>;
               s = s\<lparr>un_dispatcher := set_reply_handler MT_ANSWER_CHALLENGE (Some handle_answer_challenge_message)
                       (ident_id (cr_identity response)) (un_dispatcher s)\<rparr>
           in ci_read Unauthenticated (ci_send MT_CHALLENGE_RESPONSE (ChallengeResponse response) s)))"

definition handle_get_challenge :: "(nat \<Rightarrow> u8) \<Rightarrow> GetChallengeMessage option \<Rightarrow> connection_in \<Rightarrow> connection_in" where
  "handle_get_challenge dist message s =
     (case message of
        None \<Rightarrow> s
      | Some m \<Rightarrow> generate_challenge_response dist (ident_id (gc_identity m)) (s\<lparr>auth_type := gc_type m\<rparr>))"

definition successful_auth :: "AnswerChallengeMessage \<Rightarrow> connection_in \<Rightarrow> connection_in" where
  "successful_auth message s =
     (case ci_get_next_id s of
        (i, s) \<Rightarrow>
          (let response = (make_AuthAckMessage i (ident_id (ac_identity message)))\<lparr>authorized := True\<rparr>
           in change_state_authenticated (ci_send MT_AUTH_ACK (AuthAck response) s)))"

definition failed_auth :: "AnswerChallengeMessage \<Rightarrow> connection_in \<Rightarrow> connection_in" where
  "failed_auth message s =
     (let s = s\<lparr>closeAfterTransmission := True\<rparr>
      in case ci_get_next_id s of
           (i, s) \<Rightarrow>
             (let response = (make_AuthAckMessage i (ident_id (ac_identity message)))\<lparr>authorized := False\<rparr>
              in ci_send MT_AUTH_ACK (AuthAck response) s))"

definition auth_callback :: "AnswerChallengeMessage \<Rightarrow> bool \<Rightarrow> connection_in \<Rightarrow> connection_in" where
  "auth_callback message authd s =
     s\<lparr>ci_posted := ci_posted s @ [if authd then Post_Success message else Post_Failure message]\<rparr>"

definition handle_answer_challenge ::
  "(u8 list \<Rightarrow> u8 list) \<Rightarrow> (u8 list \<Rightarrow> string) \<Rightarrow> settings \<Rightarrow> (string \<Rightarrow> string \<Rightarrow> string \<Rightarrow> bool list)
     \<Rightarrow> AnswerChallengeMessage option \<Rightarrow> connection_in \<Rightarrow> connection_in" where
  "handle_answer_challenge sha hex cfg authorize message s =
     (case message of
        None \<Rightarrow> s
      | Some m \<Rightarrow>
          if auth_type s = CLIENT \<and> unitTestUsername cfg \<noteq> '''' \<and>
             uname_hash m = sha256_hex_string sha hex (unitTestUsername cfg)
          then successful_auth m s
          else if auth_type s = CLIENT
          then fold (auth_callback m) (authorize (uname_hash m) (un_challenge s) (challenge_response m)) s
          else if challenge_response m = sha256_hex_string sha hex (fst (ring_key_hash sha hex cfg) @ un_challenge s)
          then successful_auth m s
          else failed_auth m s)"

definition csunauthenticated_handle_read_result :: "network_operation_result \<Rightarrow> connection_in \<Rightarrow> connection_in" where
  "csunauthenticated_handle_read_result result s =
     (if \<not> was_successful result then ci_handle_error (get_error result) s else s)"

definition csunauthenticated_handle_write_result :: "network_operation_result \<Rightarrow> connection_in \<Rightarrow> connection_in" where
  "csunauthenticated_handle_write_result result s =
     (let s = (if \<not> was_successful result then ci_handle_error (get_error result) s else s)
      in if closeAfterTransmission s
         then ci_handle_error (network_error ''connection forced closed by authentication'') s else s)"

definition connection_in_start :: "connection_in \<Rightarrow> connection_in" where
  "connection_in_start s = (csunauthenticated_start s)\<lparr>ci_state := Unauthenticated\<rparr>"

section \<open>Events of a connection\<close>

text \<open>
  What the callbacks of a completed read do: the status callback of the state object that
  started it, then the handlers of its dispatcher.
\<close>

fun run_handler ::
  "(u8 list \<Rightarrow> u8 list) \<Rightarrow> (u8 list \<Rightarrow> string) \<Rightarrow> settings \<Rightarrow> (string \<Rightarrow> string \<Rightarrow> string \<Rightarrow> bool list) \<Rightarrow> (nat \<Rightarrow> u8)
     \<Rightarrow> server_handler call \<Rightarrow> connection_in \<Rightarrow> connection_in" where
  "run_handler sha hex cfg authorize dist (Handler_Call handle_get_challenge_message r m) s =
     handle_get_challenge dist (case m of Some (GetChallenge x) \<Rightarrow> Some x | _ \<Rightarrow> None) s"
| "run_handler sha hex cfg authorize dist (Handler_Call handle_answer_challenge_message r m) s =
     handle_answer_challenge sha hex cfg authorize (case m of Some (AnswerChallenge x) \<Rightarrow> Some x | _ \<Rightarrow> None) s"
| "run_handler sha hex cfg authorize dist (Handler_Call handle_post_message_handler r m) s =
     (case m of Some (Publish x) \<Rightarrow> s\<lparr>ci_posts := ci_posts s @ [x]\<rparr> | _ \<Rightarrow> s)"
| "run_handler sha hex cfg authorize dist (Unhandled_Call unauth_unhandled_message m) s = csunauthenticated_unhandled s"
| "run_handler sha hex cfg authorize dist (Unhandled_Call auth_unhandled_message m) s = csauthenticated_unhandled s"
| "run_handler sha hex cfg authorize dist _ s = s"

fun run_event ::
  "(u8 list \<Rightarrow> u8 list) \<Rightarrow> (u8 list \<Rightarrow> string) \<Rightarrow> settings \<Rightarrow> (string \<Rightarrow> string \<Rightarrow> string \<Rightarrow> bool list) \<Rightarrow> (nat \<Rightarrow> u8)
     \<Rightarrow> conn_state \<Rightarrow> server_handler event \<Rightarrow> connection_in \<Rightarrow> connection_in" where
  "run_event sha hex cfg authorize dist Unauthenticated (Status r) s = csunauthenticated_handle_read_result r s"
| "run_event sha hex cfg authorize dist Authenticated (Status r) s = csauthenticated_handle_read_result r s"
| "run_event sha hex cfg authorize dist k (Dispatched c) s = run_handler sha hex cfg authorize dist c s"
| "run_event sha hex cfg authorize dist k (Threw e) s = s"

definition run_task :: "auth_task \<Rightarrow> connection_in \<Rightarrow> connection_in" where
  "run_task t s = (case t of Post_Success m \<Rightarrow> successful_auth m s | Post_Failure m \<Rightarrow> failed_auth m s)"

definition dispatcher_of :: "conn_state \<Rightarrow> connection_in \<Rightarrow> server_handler message_dispatcher" where
  "dispatcher_of k s = (case k of Unauthenticated \<Rightarrow> un_dispatcher s | Authenticated \<Rightarrow> au_dispatcher s)"

text \<open>A read of state \<open>k\<close> completes with a message.\<close>

definition server_receive ::
  "(u8 list \<Rightarrow> u8 list) \<Rightarrow> (u8 list \<Rightarrow> string) \<Rightarrow> settings \<Rightarrow> (string \<Rightarrow> string \<Rightarrow> string \<Rightarrow> bool list) \<Rightarrow> (nat \<Rightarrow> u8)
     \<Rightarrow> conn_state \<Rightarrow> message \<Rightarrow> connection_in \<Rightarrow> connection_in" where
  "server_receive sha hex cfg authorize dist k m s =
     fold (run_event sha hex cfg authorize dist k) [Status success, Dispatched (fst (dispatch success m (dispatcher_of k s)))]
       (s\<lparr>ci_reads := remove1 k (ci_reads s)\<rparr>)"

text \<open>
  The histories of one connection: \<open>rcv\<close> are the messages that were parsed and dispatched.
  A read that completes delivers a message or one of the error outcomes of \<open>read_message\<close>.
\<close>

inductive connection_reach ::
  "(u8 list \<Rightarrow> u8 list) \<Rightarrow> (u8 list \<Rightarrow> string) \<Rightarrow> settings \<Rightarrow> (string \<Rightarrow> string \<Rightarrow> string \<Rightarrow> bool list)
     \<Rightarrow> message list \<Rightarrow> connection_in \<Rightarrow> bool" for sha hex cfg authorize where
  accepted: "connection_reach sha hex cfg authorize [] (connection_in_start (connection_in_new uninit))"
| received: "connection_reach sha hex cfg authorize rcv s \<Longrightarrow> k \<in> set (ci_reads s) \<Longrightarrow>
     connection_reach sha hex cfg authorize (rcv @ [m])
       (server_receive sha hex cfg authorize dist k m s)"
| read_failed: "connection_reach sha hex cfg authorize rcv s \<Longrightarrow> k \<in> set (ci_reads s) \<Longrightarrow> \<not> was_successful r \<Longrightarrow>
     calls = [] \<or> calls = cancel_all_with_error r (dispatcher_of k s) \<Longrightarrow>
     connection_reach sha hex cfg authorize rcv
       (fold (run_event sha hex cfg authorize dist k) (Status r # map Dispatched calls)
          (s\<lparr>ci_reads := remove1 k (ci_reads s)\<rparr>))"
| written: "connection_reach sha hex cfg authorize rcv s \<Longrightarrow>
     connection_reach sha hex cfg authorize rcv (csunauthenticated_handle_write_result r s)"
| posted: "connection_reach sha hex cfg authorize rcv s \<Longrightarrow> ci_posted s = t # ts \<Longrightarrow>
     connection_reach sha hex cfg authorize rcv (run_task t (s\<lparr>ci_posted := ts\<rparr>))"

section \<open>Credentials\<close>

text \<open>What the server accepts as an answer to a challenge.\<close>

definition credentials_ok ::
  "(u8 list \<Rightarrow> u8 list) \<Rightarrow> (u8 list \<Rightarrow> string) \<Rightarrow> settings \<Rightarrow> (string \<Rightarrow> string \<Rightarrow> string \<Rightarrow> bool list)
     \<Rightarrow> GetChallengeType \<Rightarrow> string \<Rightarrow> AnswerChallengeMessage \<Rightarrow> bool" where
  "credentials_ok sha hex cfg authorize t ch m \<longleftrightarrow>
     (if t = CLIENT
      then unitTestUsername cfg \<noteq> '''' \<and> uname_hash m = sha256_hex_string sha hex (unitTestUsername cfg) \<or>
           True \<in> set (authorize (uname_hash m) ch (challenge_response m))
      else challenge_response m = sha256_hex_string sha hex (fst (ring_key_hash sha hex cfg) @ ch))"

text \<open>
  The invariant.  Before the challenge (\<open>\<not> b\<close>) the only handler waits for the request of one;
  after it the only handlers wait for answers.  A connection becomes authenticated, or has a
  task posted that will make it so, only with an answer received that the server accepts.
\<close>

definition accepted_answer ::
  "(u8 list \<Rightarrow> u8 list) \<Rightarrow> (u8 list \<Rightarrow> string) \<Rightarrow> settings \<Rightarrow> (string \<Rightarrow> string \<Rightarrow> string \<Rightarrow> bool list)
     \<Rightarrow> message list \<Rightarrow> connection_in \<Rightarrow> bool" where
  "accepted_answer sha hex cfg authorize rcv s \<longleftrightarrow>
     (\<exists>m. AnswerChallenge m \<in> set rcv \<and> credentials_ok sha hex cfg authorize (auth_type s) (un_challenge s) m)"

definition handlers_ok :: "bool \<Rightarrow> connection_in \<Rightarrow> bool" where
  "handlers_ok b s \<longleftrightarrow>
     unhandledHandler (un_dispatcher s) = Some unauth_unhandled_message \<and>
     unhandledHandler (au_dispatcher s) = Some auth_unhandled_message \<and>
     (\<forall>t i f. dispatcher_abs (un_dispatcher s) (t, i) = Some f \<longrightarrow>
        (if b then t = MT_ANSWER_CHALLENGE \<and> f = Some handle_answer_challenge_message
         else t = MT_GET_CHALLENGE \<and> i = 0 \<and> f = Some handle_get_challenge_message)) \<and>
     (\<forall>t i f. dispatcher_abs (au_dispatcher s) (t, i) = Some f \<longrightarrow>
        t = MT_PUBLISH \<and> f = Some handle_post_message_handler)"

definition auth_inv ::
  "(u8 list \<Rightarrow> u8 list) \<Rightarrow> (u8 list \<Rightarrow> string) \<Rightarrow> settings \<Rightarrow> (string \<Rightarrow> string \<Rightarrow> string \<Rightarrow> bool list)
     \<Rightarrow> bool \<Rightarrow> message list \<Rightarrow> connection_in \<Rightarrow> bool" where
  "auth_inv sha hex cfg authorize b rcv s \<longleftrightarrow>
     handlers_ok b s \<and>
     (\<not> b \<longrightarrow> ci_posted s = [] \<and> ci_state s = Unauthenticated) \<and>
     (ci_state s = Authenticated \<or> (\<exists>m. Post_Success m \<in> set (ci_posted s)) \<longrightarrow>
        accepted_answer sha hex cfg authorize rcv s)"

section \<open>Lemmas\<close>

lemma dispatcher_abs_set_handler:
  "dispatcher_abs (set_handler t h d) = (dispatcher_abs d)((t, 0) := (if h = None then None else Some h))"
  using register_refines [of "Register t h" d] by simp

lemma dispatcher_abs_set_reply_handler:
  "dispatcher_abs (set_reply_handler t h i d) = (dispatcher_abs d)((t, i) \<mapsto> h)"
  using register_refines [of "Register_Reply t h i" d] by simp

lemma unhandled_set_handler [simp]:
  "unhandledHandler (set_handler t h d) = unhandledHandler d"
  "unhandledHandler (set_reply_handler t h i d) = unhandledHandler d"
  by (simp_all add: set_handler_def set_reply_handler_def)

lemmas session_defs = ci_handle_error_def ci_read_def ci_send_def ci_get_next_id_def csauthenticated_start_def
  csauthenticated_handle_read_result_def csauthenticated_unhandled_def change_state_authenticated_def
  csunauthenticated_unhandled_def csunauthenticated_start_def csunauthenticated_handle_read_result_def
  csunauthenticated_handle_write_result_def connection_in_start_def auth_callback_def successful_auth_def failed_auth_def
  run_task_def

lemma accepted_answer_mono:
  "accepted_answer sha hex cfg authorize rcv s \<Longrightarrow> set rcv \<subseteq> set rcv' \<Longrightarrow> auth_type s' = auth_type s \<Longrightarrow>
     un_challenge s' = un_challenge s \<Longrightarrow> accepted_answer sha hex cfg authorize rcv' s'"
  unfolding accepted_answer_def by fastforce

text \<open>Changes that do not touch what the invariant talks about, or only log a message.\<close>

lemma auth_inv_frame:
  assumes "auth_inv sha hex cfg authorize b rcv s" "un_dispatcher s' = un_dispatcher s" "au_dispatcher s' = au_dispatcher s"
    "ci_posted s' = ci_posted s" "ci_state s' = ci_state s" "auth_type s' = auth_type s" "un_challenge s' = un_challenge s"
    "set rcv \<subseteq> set rcv'"
  shows "auth_inv sha hex cfg authorize b rcv' s'"
  using assms accepted_answer_mono [of sha hex cfg authorize rcv s rcv' s']
  by (auto simp: auth_inv_def handlers_ok_def)

lemma cancel_loop_calls: "c \<in> set (cancel_loop r xs) \<Longrightarrow> c = Bad_Function_Call \<or> (\<exists>h. c = Handler_Call h r None)"
  by (induction r xs rule: cancel_loop.induct) auto

lemma run_cancelled: "run_handler sha hex cfg authorize dist (Handler_Call h r None) s = s"
  by (cases h) (simp_all add: handle_get_challenge_def handle_answer_challenge_def)

lemma fold_cancelled:
  "\<forall>c\<in>set cs. c = Bad_Function_Call \<or> (\<exists>h r. c = Handler_Call h r None) \<Longrightarrow>
     fold (run_event sha hex cfg authorize dist k) (map Dispatched cs) s = s"
  by (induction cs arbitrary: s) (auto simp: run_cancelled)

lemma auth_inv_accept:
  assumes "auth_inv sha hex cfg authorize True rcv s" "accepted_answer sha hex cfg authorize rcv s"
  shows "auth_inv sha hex cfg authorize True rcv (successful_auth m s)"
  using assms accepted_answer_mono [OF assms(2), of rcv "successful_auth m s"]
  by (auto simp: auth_inv_def handlers_ok_def session_defs Let_def dispatcher_abs_set_handler)

lemma auth_inv_refuse:
  "auth_inv sha hex cfg authorize b rcv s \<Longrightarrow> auth_inv sha hex cfg authorize b rcv (failed_auth m s)"
  by (erule auth_inv_frame) (simp_all add: session_defs Let_def)

lemma fold_auth_callback:
  "fold (auth_callback m) bs s =
     s\<lparr>ci_posted := ci_posted s @ map (\<lambda>b. if b then Post_Success m else Post_Failure m) bs\<rparr>"
  by (induction bs arbitrary: s) (simp_all add: auth_callback_def)

lemma auth_inv_answer:
  assumes "auth_inv sha hex cfg authorize True rcv s" "AnswerChallenge m \<in> set rcv"
  shows "auth_inv sha hex cfg authorize True rcv (handle_answer_challenge sha hex cfg authorize (Some m) s)"
proof (cases "credentials_ok sha hex cfg authorize (auth_type s) (un_challenge s) m")
  case True
  then have acc: "accepted_answer sha hex cfg authorize rcv s" using assms(2) by (auto simp: accepted_answer_def)
  then have "accepted_answer sha hex cfg authorize rcv (s\<lparr>ci_posted := ps\<rparr>)" for ps
    by (rule accepted_answer_mono) simp_all
  then have "auth_inv sha hex cfg authorize True rcv (fold (auth_callback m) bs s)" for bs
    using assms(1) by (simp add: fold_auth_callback auth_inv_def handlers_ok_def)
  then show ?thesis
    using auth_inv_accept [OF assms(1) acc] auth_inv_refuse [OF assms(1)] by (simp add: handle_answer_challenge_def)
next
  case False
  have "auth_inv sha hex cfg authorize True rcv (fold (auth_callback m) bs s)" if "True \<notin> set bs" for bs
  proof -
    have "map (\<lambda>b. if b then Post_Success m else Post_Failure m) bs = map (\<lambda>_. Post_Failure m) bs"
      using that by (intro map_cong) auto
    then show ?thesis
      using assms(1) accepted_answer_mono [of sha hex cfg authorize rcv s rcv "fold (auth_callback m) bs s"]
      by (auto simp: fold_auth_callback auth_inv_def handlers_ok_def)
  qed
  then show ?thesis using False auth_inv_refuse [OF assms(1)]
    by (auto simp: handle_answer_challenge_def credentials_ok_def)
qed

lemma auth_inv_challenge:
  assumes "auth_inv sha hex cfg authorize False rcv s"
  shows "auth_inv sha hex cfg authorize True rcv (handle_get_challenge dist (Some m) s)"
  using assms
  by (auto simp: auth_inv_def handlers_ok_def handle_get_challenge_def generate_challenge_response_def session_defs Let_def
      dispatcher_abs_set_handler dispatcher_abs_set_reply_handler split: if_splits)

lemma message_of_type:
  "type_of_message m = MT_ANSWER_CHALLENGE \<Longrightarrow> \<exists>x. m = AnswerChallenge x"
  "type_of_message m = MT_GET_CHALLENGE \<Longrightarrow> \<exists>x. m = GetChallenge x"
  "type_of_message m = MT_PUBLISH \<Longrightarrow> \<exists>x. m = Publish x"
  by (cases m; simp)+

lemma auth_inv_dispatch_un:
  assumes "auth_inv sha hex cfg authorize b rcv s"
  shows "\<exists>b'. auth_inv sha hex cfg authorize b' (rcv @ [m])
    (run_handler sha hex cfg authorize dist (fst (dispatch r m (un_dispatcher s))) s)"
proof -
  have inv: "auth_inv sha hex cfg authorize b (rcv @ [m]) s" by (rule auth_inv_frame [OF assms]) auto
  let ?a = "dispatcher_abs (un_dispatcher s) (type_of_message m, in_reply_to (message_identity m))"
  show ?thesis
  proof (cases ?a)
    case None
    then have "fst (dispatch r m (un_dispatcher s)) = Unhandled_Call unauth_unhandled_message m"
      using assms by (simp add: dispatch_abs invoke_def auth_inv_def handlers_ok_def)
    moreover have "auth_inv sha hex cfg authorize b (rcv @ [m]) (csunauthenticated_unhandled s)"
      by (rule auth_inv_frame [OF inv]) (simp_all add: session_defs)
    ultimately show ?thesis by auto
  next
    case (Some f)
    then have h: "if b then type_of_message m = MT_ANSWER_CHALLENGE \<and> f = Some handle_answer_challenge_message
        else type_of_message m = MT_GET_CHALLENGE \<and> f = Some handle_get_challenge_message"
      using assms unfolding auth_inv_def handlers_ok_def by metis
    show ?thesis
    proof (cases b)
      case True
      then obtain x where x: "m = AnswerChallenge x" using h message_of_type(1) by auto
      have "auth_inv sha hex cfg authorize True (rcv @ [m]) (handle_answer_challenge sha hex cfg authorize (Some x) s)"
        by (rule auth_inv_answer) (use inv True x in simp_all)
      then show ?thesis using h True Some x by (auto simp: dispatch_abs invoke_def)
    next
      case False
      then obtain x where x: "m = GetChallenge x" using h message_of_type(2) by auto
      have "auth_inv sha hex cfg authorize True (rcv @ [m]) (handle_get_challenge dist (Some x) s)"
        by (rule auth_inv_challenge) (use inv False in simp)
      then show ?thesis using h False Some x by (auto simp: dispatch_abs invoke_def)
    qed
  qed
qed

lemma auth_inv_dispatch_au:
  assumes "auth_inv sha hex cfg authorize b rcv s"
  shows "auth_inv sha hex cfg authorize b (rcv @ [m])
    (run_handler sha hex cfg authorize dist (fst (dispatch r m (au_dispatcher s))) s)"
proof (cases "dispatcher_abs (au_dispatcher s) (type_of_message m, in_reply_to (message_identity m))")
  case None
  then have "fst (dispatch r m (au_dispatcher s)) = Unhandled_Call auth_unhandled_message m"
    using assms by (simp add: dispatch_abs invoke_def auth_inv_def handlers_ok_def)
  then show ?thesis by (intro auth_inv_frame [OF assms]) (simp_all add: session_defs subset_iff)
next
  case (Some f)
  then have h: "type_of_message m = MT_PUBLISH" "f = Some handle_post_message_handler"
    using assms unfolding auth_inv_def handlers_ok_def by blast+
  then obtain x where "m = Publish x" using message_of_type(3) by auto
  then show ?thesis using Some h(2)
    by (intro auth_inv_frame [OF assms]) (simp_all add: dispatch_abs invoke_def subset_iff)
qed

lemma auth_inv_received:
  assumes "auth_inv sha hex cfg authorize b rcv s"
  shows "\<exists>b'. auth_inv sha hex cfg authorize b' (rcv @ [m]) (server_receive sha hex cfg authorize dist k m s)"
proof -
  let ?s = "run_event sha hex cfg authorize dist k (Status success) (s\<lparr>ci_reads := remove1 k (ci_reads s)\<rparr>)"
  have inv: "auth_inv sha hex cfg authorize b rcv ?s"
    by (rule auth_inv_frame [OF assms]) (cases k; simp add: session_defs)+
  have d: "un_dispatcher ?s = un_dispatcher s" "au_dispatcher ?s = au_dispatcher s"
    by (cases k; simp add: session_defs)+
  show ?thesis
    using auth_inv_dispatch_un [OF inv, of m dist success] auth_inv_dispatch_au [OF inv, of m dist success] d
    by (cases k) (auto simp: server_receive_def dispatcher_of_def)
qed

lemma auth_inv_task:
  assumes "auth_inv sha hex cfg authorize b rcv s" "ci_posted s = t # ts"
  shows "auth_inv sha hex cfg authorize b rcv (run_task t (s\<lparr>ci_posted := ts\<rparr>))"
proof -
  let ?s = "s\<lparr>ci_posted := ts\<rparr>"
  have b: b using assms by (auto simp: auth_inv_def)
  have acc: "accepted_answer sha hex cfg authorize rcv s \<Longrightarrow> accepted_answer sha hex cfg authorize rcv ?s"
    by (erule accepted_answer_mono) simp_all
  have inv: "auth_inv sha hex cfg authorize b rcv ?s"
    using assms acc b by (auto simp: auth_inv_def handlers_ok_def)
  show ?thesis
  proof (cases t)
    case (Post_Success m)
    then have "accepted_answer sha hex cfg authorize rcv ?s"
      using assms acc by (auto simp: auth_inv_def)
    then show ?thesis using auth_inv_accept [of sha hex cfg authorize rcv ?s m] inv b Post_Success by (simp add: run_task_def)
  next
    case (Post_Failure m)
    then show ?thesis using auth_inv_refuse [OF inv, of m] by (simp add: run_task_def)
  qed
qed

lemma connection_reach_inv:
  "connection_reach sha hex cfg authorize rcv s \<Longrightarrow> \<exists>b. auth_inv sha hex cfg authorize b rcv s"
proof (induction rule: connection_reach.induct)
  case (accepted uninit)
  have "auth_inv sha hex cfg authorize False [] (connection_in_start (connection_in_new uninit))"
    by (auto simp: auth_inv_def handlers_ok_def session_defs connection_in_new_def dispatcher_abs_set_handler)
  then show ?case by blast
next
  case (received rcv s k m dist)
  then show ?case using auth_inv_received by blast
next
  case (read_failed rcv s k r calls dist)
  then obtain b where inv: "auth_inv sha hex cfg authorize b rcv s" by blast
  have "\<forall>c\<in>set calls. c = Bad_Function_Call \<or> (\<exists>h r. c = Handler_Call h r None)"
    using read_failed.hyps cancel_loop_calls by (auto simp: cancel_all_with_error_def) blast
  then have "auth_inv sha hex cfg authorize b rcv
      (fold (run_event sha hex cfg authorize dist k) (Status r # map Dispatched calls) (s\<lparr>ci_reads := remove1 k (ci_reads s)\<rparr>))"
    by (intro auth_inv_frame [OF inv]) (cases k; simp add: fold_cancelled session_defs)+
  then show ?case by blast
next
  case (written rcv s r)
  then obtain b where inv: "auth_inv sha hex cfg authorize b rcv s" by blast
  have "auth_inv sha hex cfg authorize b rcv (csunauthenticated_handle_write_result r s)"
    by (rule auth_inv_frame [OF inv]) (simp_all add: session_defs Let_def)
  then show ?case by blast
next
  case (posted rcv s t ts)
  then show ?case using auth_inv_task by blast
qed

section \<open>Properties\<close>

text \<open>
  C1: no sequence of messages, errors, completed writes and posted tasks makes a connection
  authenticated without an answer among the messages it received that carries the
  credentials for the challenge this connection was sent: the digest of ring key hash and
  challenge for a node, an answer the account check accepted (or the unit test name) for a
  client.
\<close>

theorem authentication_required:
  assumes "connection_reach sha hex cfg authorize rcv s" "ci_state s = Authenticated"
  shows "\<exists>m. AnswerChallenge m \<in> set rcv \<and> credentials_ok sha hex cfg authorize (auth_type s) (un_challenge s) m"
  using connection_reach_inv [OF assms(1)] assms(2) by (auto simp: auth_inv_def accepted_answer_def)

lemma sample_server_login:
  "\<exists>s. connection_reach id (map byte_char) cfg authorize
       [GetChallenge ((make_GetChallengeMessage 1 0)\<lparr>gc_type := SERVER\<rparr>),
        AnswerChallenge ((make_AnswerChallengeMessage 2 1)\<lparr>challenge_response :=
          sha256_hex_string id (map byte_char) (fst (ring_key_hash id (map byte_char) cfg) @ random_bytes (\<lambda>_. 7) 1024)\<rparr>)] s \<and>
     ci_state s = Authenticated \<and> auth_type s = SERVER \<and> un_challenge s = random_bytes (\<lambda>_. 7) 1024"
proof -
  let ?g = "GetChallenge ((make_GetChallengeMessage 1 0)\<lparr>gc_type := SERVER\<rparr>)"
  let ?a = "AnswerChallenge ((make_AnswerChallengeMessage 2 1)\<lparr>challenge_response :=
      sha256_hex_string id (map byte_char) (fst (ring_key_hash id (map byte_char) cfg) @ random_bytes (\<lambda>_. 7) 1024)\<rparr>)"
  let ?s0 = "connection_in_start (connection_in_new CLIENT)"
  let ?s1 = "server_receive id (map byte_char) cfg authorize (\<lambda>_. 7) Unauthenticated ?g ?s0"
  let ?s2 = "server_receive id (map byte_char) cfg authorize (\<lambda>_. 7) Unauthenticated ?a ?s1"
  note defs = server_receive_def dispatcher_of_def dispatch_abs invoke_def dispatcher_abs_set_handler
    dispatcher_abs_set_reply_handler message_identity_def make_GetChallengeMessage_def make_AnswerChallengeMessage_def
    build_id_def session_defs connection_in_new_def handle_get_challenge_def generate_challenge_response_def Let_def
    make_ChallengeResponseMessage_def CHALLENGE_SIZE_def handle_answer_challenge_def
  have "connection_reach id (map byte_char) cfg authorize [] ?s0" by (rule accepted)
  then have 1: "connection_reach id (map byte_char) cfg authorize ([] @ [?g]) ?s1"
    by (rule received) (simp add: session_defs connection_in_new_def)
  have "Unauthenticated \<in> set (ci_reads ?s1)" by (simp add: defs)
  from received [OF 1 this, of ?a "\<lambda>_. 7"]
  have "connection_reach id (map byte_char) cfg authorize [?g, ?a] ?s2" by simp
  moreover have "ci_state ?s2 = Authenticated \<and> auth_type ?s2 = SERVER \<and> un_challenge ?s2 = random_bytes (\<lambda>_. 7) 1024"
    by (simp add: defs)
  ultimately show ?thesis by blast
qed

theorem authentication_required_witness:
  "\<exists>rcv s. connection_reach id (map byte_char) (settings_new 2 8481) (\<lambda>_ _ _. []) rcv s \<and> ci_state s = Authenticated \<and>
     (\<exists>m. AnswerChallenge m \<in> set rcv \<and>
        credentials_ok id (map byte_char) (settings_new 2 8481) (\<lambda>_ _ _. []) (auth_type s) (un_challenge s) m)"
proof -
  obtain rcv s where s: "connection_reach id (map byte_char) (settings_new 2 8481) (\<lambda>_ _ _. []) rcv s" "ci_state s = Authenticated"
    using sample_server_login [of "settings_new 2 8481" "\<lambda>_ _ _. []"] by auto
  then show ?thesis using authentication_required [OF s] by (intro exI [of _ rcv] exI [of _ s]) simp
qed

end
