(* ===== verification/Client_Session.thy ===== *)
theory Client_Session
  imports Wire Settings
begin

text \<open>
  \<open>client/cpp/src/session.cpp\<close>, \<open>unauthenticated_state.cpp\<close> and \<open>authenticated_state.cpp\<close>:
  the client side of a connection.  The two state objects differ in the handlers of their
  dispatchers; writes carry the status callback that runs when they complete.  Callbacks of
  the application are recorded: the results of \<open>authenticate\<close>, and for every publication
  the response with the identifier of the message.
\<close>

section \<open>State\<close>

datatype client_handler =
    on_challenge_response_handler
  | on_auth_ack_handler
  | un_unhandled_handler
  | publish_response_handler u32
  | au_unhandled_handler

datatype session_state = Unauthenticated_State | Authenticated_State

datatype PublishMessageResponse =
    PMR_MESSAGE_PIPED
  | PMR_MESSAGE_STORED
  | PMR_MESSAGE_DROPPED
  | PMR_NOT_AUTH
  | PMR_UNAVAILABLE
  | PMR_NETWORK_ERROR

datatype client_write = Auth_Write | Publish_Write PublishMessage

record client_session =
  cs_next_id :: u32
  cs_sent :: "(message_type \<times> message) list"
  cs_writes :: "client_write list"
  cs_reads :: "session_state list"
  cs_closed :: bool
  cs_valid :: bool
  cs_state :: "session_state option"
  cs_username :: string
  cs_password :: string
  cs_un_dispatcher :: "client_handler message_dispatcher"
  cs_au_dispatcher :: "client_handler message_dispatcher"
  cs_auth_results :: "bool list"
  cs_publish_results :: "(u32 \<times> PublishMessageResponse) list"

text \<open>A session on a connection that has handed out no identifier yet.\<close>

definition session_new :: client_session where
  "session_new =
     \<lparr>cs_next_id = 0, cs_sent = [], cs_writes = [], cs_reads = [], cs_closed = False, cs_valid = True, cs_state = None,
      cs_username = '''', cs_password = '''',
      cs_un_dispatcher = message_dispatcher_new (Some un_unhandled_handler),
      cs_au_dispatcher = message_dispatcher_new (Some au_unhandled_handler),
      cs_auth_results = [], cs_publish_results = []\<rparr>"

definition cs_get_next_id :: "client_session \<Rightarrow> u32 \<times> client_session" where
  "cs_get_next_id s = (let s = s\<lparr>cs_next_id := cs_next_id s + 1\<rparr> in (cs_next_id s, s))"

definition cs_send :: "message_type \<Rightarrow> message \<Rightarrow> client_write \<Rightarrow> client_session \<Rightarrow> client_session" where
  "cs_send t m cb s = s\<lparr>cs_sent := cs_sent s @ [(t, m)], cs_writes := cs_writes s @ [cb]\<rparr>"

definition cs_read :: "session_state \<Rightarrow> client_session \<Rightarrow> client_session" where
  "cs_read k s = s\<lparr>cs_reads := cs_reads s @ [k]\<rparr>"

section \<open>The session\<close>

definition invalidate :: "client_session \<Rightarrow> client_session" where
  "invalidate s = s\<lparr>cs_valid := False, cs_closed := True\<rparr>"

definition protocol_violation :: "client_session \<Rightarrow> client_session" where
  "protocol_violation s = invalidate s"

text \<open>\<open>session::connection_error\<close> only writes to the log.\<close>

definition session_connection_error :: "network_operation_result \<Rightarrow> client_session \<Rightarrow> client_session" where
  "session_connection_error result s = s"

text \<open>\<open>read_next\<close> starts one read.\<close>

definition authenticated_state_entry :: "client_session \<Rightarrow> client_session" where
  "authenticated_state_entry s = cs_read Authenticated_State s"

definition on_auth_status :: "bool \<Rightarrow> client_session \<Rightarrow> client_session" where
  "on_auth_status authd s =
     (if authd
      then authenticated_state_entry
             (s\<lparr>cs_au_dispatcher := message_dispatcher_new (Some au_unhandled_handler), cs_state := Some Authenticated_State\<rparr>)
      else s)"

text \<open>The callback handed to the unauthenticated state: the session's own, then the application's.\<close>

definition session_auth_callback :: "bool \<Rightarrow> client_session \<Rightarrow> client_session" where
  "session_auth_callback authd s =
     (let s = on_auth_status authd s in s\<lparr>cs_auth_results := cs_auth_results s @ [authd]\<rparr>)"

section \<open>The unauthenticated state\<close>

definition unauthenticated_state_entry :: "client_session \<Rightarrow> client_session" where
  "unauthenticated_state_entry s =
     (case cs_get_next_id s of
        (i, s) \<Rightarrow>
          (let gcm = (make_GetChallengeMessage i 0)\<lparr>gc_type := CLIENT\<rparr>;
               s = s\<lparr>cs_un_dispatcher := set_reply_handler MT_CHALLENGE_RESPONSE (Some on_challenge_response_handler)
                       (ident_id (gc_identity gcm)) (cs_un_dispatcher s)\<rparr>
           in cs_read Unauthenticated_State (cs_send MT_GET_CHALLENGE (GetChallenge gcm) Auth_Write s)))"

definition authenticate :: "string \<Rightarrow> string \<Rightarrow> client_session \<Rightarrow> client_session" where
  "authenticate userName password s =
     unauthenticated_state_entry
       (s\<lparr>cs_username := userName, cs_password := password, cs_state := Some Unauthenticated_State,
          cs_un_dispatcher := message_dispatcher_new (Some un_unhandled_handler)\<rparr>)"

definition on_message_sent :: "network_operation_result \<Rightarrow> client_session \<Rightarrow> client_session" where
  "on_message_sent result s = (if \<not> was_successful result then session_auth_callback False s else s)"

definition on_message_received :: "network_operation_result \<Rightarrow> client_session \<Rightarrow> client_session" where
  "on_message_received result s = (if \<not> was_successful result then session_auth_callback False s else s)"

definition on_challenge_response ::
  "(u8 list \<Rightarrow> u8 list) \<Rightarrow> (u8 list \<Rightarrow> string) \<Rightarrow> ChallengeResponseMessage option \<Rightarrow> client_session \<Rightarrow> client_session" where
  "on_challenge_response sha hex response s =
     (case response of
        None \<Rightarrow> s
      | Some m \<Rightarrow>
          (let unameHash = sha256_hex_string sha hex (cs_username s);
               pwHash = sha256_hex_string sha hex (cs_password s);
               pwHashAndChallenge = pwHash @ challenge m;
               result = sha256_hex_string sha hex pwHashAndChallenge;
               s = s\<lparr>cs_un_dispatcher := set_handler MT_CHALLENGE_RESPONSE None (cs_un_dispatcher s)\<rparr>
           in case cs_get_next_id s of
                (i, s) \<Rightarrow>
                  (let acm = (make_AnswerChallengeMessage i (ident_id (cr_identity m)))
                               \<lparr>uname_hash := unameHash, challenge_response := result\<rparr>;
                       s = s\<lparr>cs_un_dispatcher := set_reply_handler MT_AUTH_ACK (Some on_auth_ack_handler)
                               (ident_id (ac_identity acm)) (cs_un_dispatcher s)\<rparr>
                   in cs_read Unauthenticated_State (cs_send MT_ANSWER_CHALLENGE (AnswerChallenge acm) Auth_Write s))))"

definition on_auth_ack :: "AuthAckMessage option \<Rightarrow> client_session \<Rightarrow> client_session" where
  "on_auth_ack response s =
     (case response of
        None \<Rightarrow> s
      | Some m \<Rightarrow> if authorized m then session_auth_callback True s else session_auth_callback False s)"

section \<open>The authenticated state\<close>

definition authenticated_publish_message ::
  "uuid \<Rightarrow> string \<Rightarrow> bool \<Rightarrow> u32 \<Rightarrow> string \<Rightarrow> client_session \<Rightarrow> client_session" where
  "authenticated_publish_message random_uuid queueId storeIfCantPipe ttl data s =
     (case cs_get_next_id s of
        (i, s) \<Rightarrow>
          (let message = (make_PublishMessage i 0)
                 \<lparr>pm_message_id := uuid_to_bytes random_uuid, pm_queue_id := queueId, pm_ttl := ttl, pm_content := data\<rparr>;
               message = (if storeIfCantPipe then message\<lparr>pm_flags := Some 1\<rparr> else message\<lparr>pm_flags := Some 0\<rparr>)
           in cs_send MT_PUBLISH (Publish message) (Publish_Write message) s))"

text \<open>The status callback of a publication registers the handler of its response.\<close>

definition publish_sent :: "PublishMessage \<Rightarrow> network_operation_result \<Rightarrow> client_session \<Rightarrow> client_session" where
  "publish_sent message result s =
     (if was_successful result
      then s\<lparr>cs_au_dispatcher := set_reply_handler MT_PUBLISH_RESPONSE
                (Some (publish_response_handler (ident_id (pm_identity message)))) (ident_id (pm_identity message))
                (cs_au_dispatcher s)\<rparr>
      else session_connection_error result s)"

text \<open>The cast of a status to the enumeration of the application.\<close>

fun publish_response_of :: "PublishStatus \<Rightarrow> PublishMessageResponse" where
  "publish_response_of PIPED = PMR_MESSAGE_PIPED"
| "publish_response_of STORED = PMR_MESSAGE_STORED"
| "publish_response_of DROPPED = PMR_MESSAGE_DROPPED"
| "publish_response_of PS_NOTAUTH = PMR_NOT_AUTH"
| "publish_response_of PS_UNAVAILABLE = PMR_UNAVAILABLE"

definition publish_response ::
  "u32 \<Rightarrow> network_operation_result \<Rightarrow> PublishResponseMessage option \<Rightarrow> client_session \<Rightarrow> client_session" where
  "publish_response i result response s =
     (if was_successful result
      then (case response of
              Some m \<Rightarrow> s\<lparr>cs_publish_results := cs_publish_results s @ [(i, publish_response_of (pr_status m))]\<rparr>
            | None \<Rightarrow> s)
      else s\<lparr>cs_publish_results := cs_publish_results s @ [(i, PMR_NETWORK_ERROR)]\<rparr>)"

definition read_next_result :: "network_operation_result \<Rightarrow> client_session \<Rightarrow> client_session" where
  "read_next_result result s = (if \<not> was_successful result then session_connection_error result s else s)"

text \<open>Publishing through the session: the unauthenticated state throws, without a state it is undefined.\<close>

datatype session_error = session_logic_error string | no_session_state

definition session_publish_message ::
  "uuid \<Rightarrow> string \<Rightarrow> bool \<Rightarrow> u32 \<Rightarrow> string \<Rightarrow> client_session \<Rightarrow> session_error + client_session" where
  "session_publish_message random_uuid queueId storeIfCantPipe ttl data s =
     (case cs_state s of
        Some Authenticated_State \<Rightarrow> Inr (authenticated_publish_message random_uuid queueId storeIfCantPipe ttl data s)
      | Some Unauthenticated_State \<Rightarrow>
          Inl (session_logic_error ''Call to publish_message() is invalid when the session is unauthenticated'')
      | None \<Rightarrow> Inl no_session_state)"

section \<open>Events\<close>

fun client_run_handler ::
  "(u8 list \<Rightarrow> u8 list) \<Rightarrow> (u8 list \<Rightarrow> string) \<Rightarrow> client_handler call \<Rightarrow> client_session \<Rightarrow> client_session" where
  "client_run_handler sha hex (Handler_Call on_challenge_response_handler r m) s =
     on_challenge_response sha hex (case m of Some (ChallengeResponse x) \<Rightarrow> Some x | _ \<Rightarrow> None) s"
| "client_run_handler sha hex (Handler_Call on_auth_ack_handler r m) s =
     on_auth_ack (case m of Some (AuthAck x) \<Rightarrow> Some x | _ \<Rightarrow> None) s"
| "client_run_handler sha hex (Handler_Call (publish_response_handler i) r m) s =
     publish_response i r (case m of Some (PublishResponse x) \<Rightarrow> Some x | _ \<Rightarrow> None) s"
| "client_run_handler sha hex (Unhandled_Call h m) s = protocol_violation s"
| "client_run_handler sha hex _ s = s"

fun client_run_event ::
  "(u8 list \<Rightarrow> u8 list) \<Rightarrow> (u8 list \<Rightarrow> string) \<Rightarrow> session_state \<Rightarrow> client_handler event \<Rightarrow> client_session \<Rightarrow> client_session" where
  "client_run_event sha hex Unauthenticated_State (Status r) s = on_message_received r s"
| "client_run_event sha hex Authenticated_State (Status r) s = read_next_result r s"
| "client_run_event sha hex k (Dispatched c) s = client_run_handler sha hex c s"
| "client_run_event sha hex k (Threw e) s = s"

definition client_dispatcher_of :: "session_state \<Rightarrow> client_session \<Rightarrow> client_handler message_dispatcher" where
  "client_dispatcher_of k s = (case k of Unauthenticated_State \<Rightarrow> cs_un_dispatcher s | Authenticated_State \<Rightarrow> cs_au_dispatcher s)"

text \<open>A read of state \<open>k\<close> completes with a message.\<close>

definition client_receive ::
  "(u8 list \<Rightarrow> u8 list) \<Rightarrow> (u8 list \<Rightarrow> string) \<Rightarrow> session_state \<Rightarrow> message \<Rightarrow> client_session \<Rightarrow> client_session" where
  "client_receive sha hex k m s =
     fold (client_run_event sha hex k) [Status success, Dispatched (fst (dispatch success m (client_dispatcher_of k s)))]
       (s\<lparr>cs_reads := remove1 k (cs_reads s)\<rparr>)"

definition client_written :: "network_operation_result \<Rightarrow> client_session \<Rightarrow> client_session" where
  "client_written r s =
     (case cs_writes s of
        [] \<Rightarrow> s
      | Auth_Write # ws \<Rightarrow> on_message_sent r (s\<lparr>cs_writes := ws\<rparr>)
      | Publish_Write m # ws \<Rightarrow> publish_sent m r (s\<lparr>cs_writes := ws\<rparr>))"

text \<open>
  What a logged-in session can do while reads succeed: publish, complete a write, receive a
  message.
\<close>

inductive logged_in_reach ::
  "(u8 list \<Rightarrow> u8 list) \<Rightarrow> (u8 list \<Rightarrow> string) \<Rightarrow> client_session \<Rightarrow> bool" for sha hex where
  logged_in: "cs_au_dispatcher s = message_dispatcher_new (Some au_unhandled_handler) \<Longrightarrow> cs_writes s = [] \<Longrightarrow>
     cs_reads s = [Authenticated_State] \<Longrightarrow> cs_publish_results s = [] \<Longrightarrow> logged_in_reach sha hex s"
| publishes: "logged_in_reach sha hex s \<Longrightarrow> logged_in_reach sha hex (authenticated_publish_message u q st t d s)"
| writes: "logged_in_reach sha hex s \<Longrightarrow> logged_in_reach sha hex (client_written r s)"
| receives: "logged_in_reach sha hex s \<Longrightarrow> Authenticated_State \<in> set (cs_reads s) \<Longrightarrow>
     logged_in_reach sha hex (client_receive sha hex Authenticated_State m s)"

definition single_read_inv :: "client_session \<Rightarrow> bool" where
  "single_read_inv s \<longleftrightarrow>
     length (cs_publish_results s) + length (cs_reads s) \<le> 1 \<and> set (cs_reads s) \<subseteq> {Authenticated_State} \<and>
     Auth_Write \<notin> set (cs_writes s) \<and> unhandledHandler (cs_au_dispatcher s) = Some au_unhandled_handler \<and>
     (\<forall>t i f. dispatcher_abs (cs_au_dispatcher s) (t, i) = Some f \<longrightarrow> (\<exists>j. f = Some (publish_response_handler j)))"

section \<open>Lemmas\<close>

lemmas client_defs = cs_get_next_id_def cs_send_def cs_read_def invalidate_def protocol_violation_def
  session_connection_error_def authenticated_state_entry_def on_auth_status_def session_auth_callback_def
  on_message_sent_def on_message_received_def read_next_result_def Let_def

lemma single_read_publish: "single_read_inv s \<Longrightarrow> single_read_inv (authenticated_publish_message u q st t d s)"
  by (simp add: single_read_inv_def authenticated_publish_message_def client_defs)

lemma single_read_written: "single_read_inv s \<Longrightarrow> single_read_inv (client_written r s)"
  using register_refines [of "Register_Reply _ _ _"]
  by (auto simp: single_read_inv_def client_written_def publish_sent_def client_defs set_reply_handler_def
      split: list.split client_write.split)
    (auto simp: dispatcher_abs_def map_of_umap_assign split: if_splits)

lemma single_read_receive:
  assumes "single_read_inv s" "Authenticated_State \<in> set (cs_reads s)"
  shows "single_read_inv (client_receive sha hex Authenticated_State m s)"
proof -
  have reads: "cs_reads s = [Authenticated_State]" "cs_publish_results s = []"
    using assms by (cases "cs_reads s"; auto simp: single_read_inv_def)+
  show ?thesis
  proof (cases "dispatcher_abs (cs_au_dispatcher s) (type_of_message m, in_reply_to (message_identity m))")
    case None
    then show ?thesis using assms(1) reads
      by (simp add: client_receive_def client_dispatcher_of_def dispatch_abs invoke_def single_read_inv_def client_defs)
  next
    case (Some f)
    then obtain j where "f = Some (publish_response_handler j)" using assms(1) unfolding single_read_inv_def by blast
    then show ?thesis using assms(1) reads Some
      by (auto simp: client_receive_def client_dispatcher_of_def dispatch_abs invoke_def single_read_inv_def client_defs
          publish_response_def split: option.split)
  qed
qed

lemma logged_in_inv: "logged_in_reach sha hex s \<Longrightarrow> single_read_inv s"
proof (induction rule: logged_in_reach.induct)
  case (logged_in s)
  then show ?case by (simp add: single_read_inv_def)
qed (simp_all add: single_read_publish single_read_written single_read_receive)

section \<open>Properties\<close>


lemma sample_logged_in:
  "logged_in_reach sha hex (client_receive sha hex Authenticated_State (PublishResponse \<lparr>pr_identity = build_id 7 1, pr_status = STORED\<rparr>)
     (client_written success (authenticated_publish_message (replicate 16 0) ''q'' True 5 ''data''
        (session_new\<lparr>cs_reads := [Authenticated_State]\<rparr>))))"
  by (intro receives writes publishes logged_in)
    (simp_all add: session_new_def client_written_def authenticated_publish_message_def publish_sent_def client_defs)


end
