(* ===== verification/Client_Cluster.thy ===== *)
theory Client_Cluster
  imports Connection Settings
begin

text \<open>
  \<open>client/cpp/src/cluster_endpoint.cpp\<close>, \<open>cluster.{h,cpp}\<close>, \<open>cluster_builder.cpp\<close>,
  \<open>cluster_connection.cpp\<close>, \<open>connection_error.cpp\<close> and \<open>shared/src/random_selector.h\<close>: the
  nodes a client knows, which of them it considers dead and when it tries them again.
  Endpoints are shared objects, named by pointers into a heap; durations in whole seconds
  are integers.
\<close>

section \<open>Endpoints of a cluster\<close>

record cluster_endpoint =
  network_endpoint :: endpoint
  lastFailure :: time_point
  currentBackoff :: int
  is_failed :: bool

definition MINIMUM_BACKOFF_SECS :: int where
  "MINIMUM_BACKOFF_SECS = 60"

definition MAXIMUM_BACKOFF_SECS :: int where
  "MAXIMUM_BACKOFF_SECS = 60 * 60"

text \<open>A default constructed time point and duration are zero.\<close>

definition cluster_endpoint_new :: "endpoint \<Rightarrow> cluster_endpoint" where
  "cluster_endpoint_new ep = \<lparr>network_endpoint = ep, lastFailure = 0, currentBackoff = 0, is_failed = False\<rparr>"

text \<open>\<open>duration_cast\<close> truncates towards zero.\<close>

definition secs_since_last_try :: "time_point \<Rightarrow> cluster_endpoint \<Rightarrow> int" where
  "secs_since_last_try now e =
     (let duration = now - lastFailure e in sgn duration * (\<bar>duration\<bar> div 1000000000))"

definition secs_remining_before_retry :: "time_point \<Rightarrow> cluster_endpoint \<Rightarrow> int" where
  "secs_remining_before_retry now e = currentBackoff e - secs_since_last_try now e"

definition ready_for_retry :: "time_point \<Rightarrow> cluster_endpoint \<Rightarrow> bool" where
  "ready_for_retry now e \<longleftrightarrow> currentBackoff e \<le> secs_since_last_try now e"

definition increase_backoff :: "cluster_endpoint \<Rightarrow> cluster_endpoint" where
  "increase_backoff e =
     (if currentBackoff e = 0 then e\<lparr>currentBackoff := MINIMUM_BACKOFF_SECS\<rparr>
      else e\<lparr>currentBackoff := currentBackoff e * 2\<rparr>)"

definition mark_failed :: "time_point \<Rightarrow> cluster_endpoint \<Rightarrow> cluster_endpoint" where
  "mark_failed now e = increase_backoff (e\<lparr>lastFailure := now, is_failed := True\<rparr>)"

definition mark_up :: "cluster_endpoint \<Rightarrow> cluster_endpoint" where
  "mark_up e = e\<lparr>is_failed := False, currentBackoff := 0\<rparr>"

section \<open>The cluster\<close>

type_synonym ep_ptr = nat

record cluster =
  endpoints :: "ep_ptr \<Rightarrow> cluster_endpoint"
  liveEndpoints :: "ep_ptr list"
  deadEndpoints :: "ep_ptr list"

text \<open>The constructor makes one new object for every element of the collection.\<close>

definition cluster_new :: "endpoint list \<Rightarrow> cluster" where
  "cluster_new epCol =
     \<lparr>endpoints = \<lambda>p. cluster_endpoint_new (epCol ! p), liveEndpoints = [0 ..< length epCol], deadEndpoints = []\<rparr>"

definition add_endpoint :: "endpoint \<Rightarrow> endpoint list \<Rightarrow> endpoint list" where
  "add_endpoint ep eps = eps @ [ep]"

definition build_cluster :: "endpoint list \<Rightarrow> cluster" where
  "build_cluster eps = cluster_new eps"

text \<open>
  \<open>v.erase(std::remove(v.begin(), v.end(), x))\<close> erases one element: with no match it erases
  the end iterator, which is undefined (\<open>None\<close>); with several matches the moved-from tail
  \<open>junk\<close> stays.
\<close>

definition remove_erase :: "'a list \<Rightarrow> 'a \<Rightarrow> 'a list \<Rightarrow> 'a list option" where
  "remove_erase junk x xs =
     (let kept = filter (\<lambda>y. y \<noteq> x) xs; k = length xs - length kept
      in if k = 0 then None else Some (kept @ take (k - 1) junk))"

text \<open>A \<open>std::set\<close> of pointers, in the order of the pointers.\<close>

definition kill_endpoint :: "ep_ptr list \<Rightarrow> time_point \<Rightarrow> ep_ptr \<Rightarrow> cluster \<Rightarrow> cluster option" where
  "kill_endpoint junk now ep c =
     (if ep \<notin> set (deadEndpoints c) then
        (let c = c\<lparr>endpoints := (endpoints c)(ep := mark_failed now (endpoints c ep)),
                   deadEndpoints := insort ep (deadEndpoints c)\<rparr>
         in map_option (\<lambda>live. c\<lparr>liveEndpoints := live\<rparr>) (remove_erase junk ep (liveEndpoints c)))
      else Some c)"

fun mark_ready :: "time_point \<Rightarrow> ep_ptr list \<Rightarrow> (ep_ptr \<Rightarrow> cluster_endpoint) \<Rightarrow> (ep_ptr \<Rightarrow> cluster_endpoint) \<times> ep_ptr list" where
  "mark_ready now [] h = (h, [])"
| "mark_ready now (ep # eps) h =
     (if ready_for_retry now (h ep)
      then (case mark_ready now eps (h(ep := mark_up (h ep))) of (h, retryEps) \<Rightarrow> (h, ep # retryEps))
      else mark_ready now eps h)"

definition check_for_expired_deaths :: "time_point \<Rightarrow> cluster \<Rightarrow> cluster" where
  "check_for_expired_deaths now c =
     (case mark_ready now (deadEndpoints c) (endpoints c) of
        (h, retryEps) \<Rightarrow>
          fold (\<lambda>ep c. c\<lparr>deadEndpoints := removeAll ep (deadEndpoints c), liveEndpoints := liveEndpoints c @ [ep]\<rparr>)
            retryEps (c\<lparr>endpoints := h\<rparr>))"

text \<open>\<open>dis\<close> draws an index from the uniform distribution over the container.\<close>

definition random_select :: "(nat \<Rightarrow> nat) \<Rightarrow> 'a list \<Rightarrow> 'a" where
  "random_select dis c = c ! dis (length c)"

definition random_endpoint :: "(nat \<Rightarrow> nat) \<Rightarrow> cluster \<Rightarrow> ep_ptr" where
  "random_endpoint dis c = random_select dis (liveEndpoints c)"

section \<open>Connecting\<close>

datatype connection_error =
  connection_error (ce_what: string) (nodeErrors: "(endpoint \<times> connection_error) list") (singleError: error_code)

definition connection_error_of :: "string \<Rightarrow> connection_error" where
  "connection_error_of w = connection_error w [] None"

definition connection_error_of_code :: "error_code \<Rightarrow> connection_error" where
  "connection_error_of_code e = connection_error (error_code_message e) [] e"

definition was_node_error :: "connection_error \<Rightarrow> bool" where
  "was_node_error e \<longleftrightarrow> nodeErrors e \<noteq> []"

definition was_network_error :: "connection_error \<Rightarrow> bool" where
  "was_network_error e \<longleftrightarrow> singleError e \<noteq> None"

definition cluster_connection_new :: "client_settings \<Rightarrow> 's \<Rightarrow> cluster_endpoint \<Rightarrow> 's connection_base" where
  "cluster_connection_new cfg sock ep = connection_base_out sock (network_endpoint ep) (client_maxMessageSize cfg)"

text \<open>What the connect handler of the application receives: a session on a connection, or an error.\<close>

definition connection_result :: "network_operation_result \<Rightarrow> 's connection_base \<Rightarrow> 's connection_base option \<times> connection_error" where
  "connection_result result conn =
     (if was_successful result then (Some conn, connection_error_of '''')
      else (None, connection_error_of (what (get_error result))))"

definition try_connect_next_endpoint ::
  "client_settings \<Rightarrow> (nat \<Rightarrow> nat) \<Rightarrow> ('s connection_base \<Rightarrow> network_operation_result \<times> 's connection_base) \<Rightarrow> 's
     \<Rightarrow> time_point \<Rightarrow> cluster \<Rightarrow> ('s connection_base option \<times> connection_error) \<times> cluster" where
  "try_connect_next_endpoint cfg dis conn_connect sock now c =
     (let c = check_for_expired_deaths now c
      in if length (liveEndpoints c) = 0 then ((None, connection_error_of ''no nodes available''), c)
         else (let ep = random_endpoint dis c
               in case conn_connect (cluster_connection_new cfg sock (endpoints c ep)) of
                    (result, conn) \<Rightarrow> (connection_result result conn, c)))"

definition cluster_connect ::
  "client_settings \<Rightarrow> (nat \<Rightarrow> nat) \<Rightarrow> ('s connection_base \<Rightarrow> network_operation_result \<times> 's connection_base) \<Rightarrow> 's
     \<Rightarrow> time_point \<Rightarrow> cluster \<Rightarrow> ('s connection_base option \<times> connection_error) \<times> cluster" where
  "cluster_connect cfg dis conn_connect sock now c = try_connect_next_endpoint cfg dis conn_connect sock now c"

section \<open>Invariant\<close>

definition cluster_inv :: "nat \<Rightarrow> cluster \<Rightarrow> bool" where
  "cluster_inv n c \<longleftrightarrow>
     distinct (liveEndpoints c @ deadEndpoints c) \<and> set (liveEndpoints c @ deadEndpoints c) = {..<n} \<and>
     (\<forall>p\<in>set (liveEndpoints c). \<not> is_failed (endpoints c p) \<and> currentBackoff (endpoints c p) = 0) \<and>
     (\<forall>p\<in>set (deadEndpoints c). is_failed (endpoints c p) \<and> currentBackoff (endpoints c p) = MINIMUM_BACKOFF_SECS)"

inductive cluster_reach :: "nat \<Rightarrow> cluster \<Rightarrow> bool" for n where
  reach_new: "length eps = n \<Longrightarrow> cluster_reach n (cluster_new eps)"
| reach_kill: "cluster_reach n c \<Longrightarrow> ep < n \<Longrightarrow> kill_endpoint junk now ep c = Some c' \<Longrightarrow> cluster_reach n c'"
| reach_connect: "cluster_reach n c \<Longrightarrow>
     cluster_reach n (snd (cluster_connect cfg dis conn_connect (sock :: unit) now c))"

section \<open>Lemmas\<close>

lemma mark_ready_eq:
  "distinct eps \<Longrightarrow> mark_ready now eps h =
     (\<lambda>p. if p \<in> set eps \<and> ready_for_retry now (h p) then mark_up (h p) else h p,
      filter (\<lambda>p. ready_for_retry now (h p)) eps)"
proof (induction eps arbitrary: h)
  case (Cons ep eps)
  let ?h = "if ready_for_retry now (h ep) then h(ep := mark_up (h ep)) else h"
  have "filter (\<lambda>p. ready_for_retry now (?h p)) eps = filter (\<lambda>p. ready_for_retry now (h p)) eps"
    using Cons.prems by (intro filter_cong) auto
  moreover have "distinct eps" using Cons.prems by simp
  ultimately show ?case using Cons.IH [of ?h] Cons.prems by (auto simp: fun_eq_iff)
qed simp

lemma fold_revive:
  "fold (\<lambda>ep c. c\<lparr>deadEndpoints := removeAll ep (deadEndpoints c), liveEndpoints := liveEndpoints c @ [ep]\<rparr>) eps c =
     c\<lparr>deadEndpoints := filter (\<lambda>p. p \<notin> set eps) (deadEndpoints c), liveEndpoints := liveEndpoints c @ eps\<rparr>"
proof (induction eps arbitrary: c)
  case (Cons ep eps)
  have "filter (\<lambda>p. p \<notin> set eps) (removeAll ep xs) = filter (\<lambda>p. p \<notin> set (ep # eps)) xs" for xs
    by (induction xs) auto
  then show ?case using Cons by simp
qed simp

lemma check_for_expired_deaths_eq:
  assumes "distinct (deadEndpoints c)"
  shows "check_for_expired_deaths now c =
    c\<lparr>endpoints := \<lambda>p. if p \<in> set (deadEndpoints c) \<and> ready_for_retry now (endpoints c p)
                       then mark_up (endpoints c p) else endpoints c p,
      deadEndpoints := filter (\<lambda>p. \<not> ready_for_retry now (endpoints c p)) (deadEndpoints c),
      liveEndpoints := liveEndpoints c @ filter (\<lambda>p. ready_for_retry now (endpoints c p)) (deadEndpoints c)\<rparr>"
proof -
  have "filter (\<lambda>p. p \<notin> set (filter (\<lambda>p. ready_for_retry now (endpoints c p)) (deadEndpoints c))) (deadEndpoints c) =
      filter (\<lambda>p. \<not> ready_for_retry now (endpoints c p)) (deadEndpoints c)"
    by (rule filter_cong) auto
  then show ?thesis
    by (simp add: check_for_expired_deaths_def mark_ready_eq [OF assms] fold_revive)
qed

lemma check_inv:
  assumes "cluster_inv n c"
  shows "cluster_inv n (check_for_expired_deaths now c)"
proof -
  have "distinct (deadEndpoints c)" using assms by (simp add: cluster_inv_def)
  then show ?thesis
    using assms unfolding check_for_expired_deaths_eq [OF \<open>distinct (deadEndpoints c)\<close>] cluster_inv_def
    by (auto simp: mark_up_def)
qed

lemma remove_erase_once: "distinct xs \<Longrightarrow> x \<in> set xs \<Longrightarrow> remove_erase junk x xs = Some (filter (\<lambda>y. y \<noteq> x) xs)"
proof -
  assume d: "distinct xs" "x \<in> set xs"
  then have "length (filter (\<lambda>y. y = x) xs) = 1"
    using distinct_length_filter [of xs "\<lambda>y. y = x"] by (simp add: Collect_conv_if Int_insert_right)
  then have "length xs - length (filter (\<lambda>y. y \<noteq> x) xs) = 1"
    using sum_length_filter_compl [of "\<lambda>y. y = x" xs] by simp
  then show ?thesis by (simp add: remove_erase_def Let_def)
qed

lemma kill_eq:
  assumes "cluster_inv n c" "ep < n" "ep \<notin> set (deadEndpoints c)"
  shows "kill_endpoint junk now ep c =
    Some (c\<lparr>endpoints := (endpoints c)(ep := mark_failed now (endpoints c ep)),
            deadEndpoints := insort ep (deadEndpoints c), liveEndpoints := filter (\<lambda>p. p \<noteq> ep) (liveEndpoints c)\<rparr>)"
proof -
  have "ep \<in> set (liveEndpoints c)" "distinct (liveEndpoints c)" using assms by (auto simp: cluster_inv_def)
  then show ?thesis using assms(3) by (simp add: kill_endpoint_def Let_def remove_erase_once)
qed

lemma kill_inv:
  assumes "cluster_inv n c" "ep < n" "kill_endpoint junk now ep c = Some c'"
  shows "cluster_inv n c'"
proof (cases "ep \<in> set (deadEndpoints c)")
  case True
  then show ?thesis using assms by (simp add: kill_endpoint_def)
next
  case False
  then have "currentBackoff (endpoints c ep) = 0" "ep \<in> set (liveEndpoints c)"
    using assms by (auto simp: cluster_inv_def)
  then show ?thesis
    using assms False unfolding kill_eq [OF assms(1,2) False] cluster_inv_def
    by (auto simp: mark_failed_def increase_backoff_def set_insort_key distinct_insort)
qed

lemma connect_cluster: "snd (cluster_connect cfg dis conn_connect sock now c) = check_for_expired_deaths now c"
  by (simp add: cluster_connect_def try_connect_next_endpoint_def Let_def split: prod.split)

lemma cluster_new_inv: "cluster_inv (length eps) (cluster_new eps)"
  by (auto simp: cluster_inv_def cluster_new_def cluster_endpoint_new_def)

lemma cluster_reach_inv: "cluster_reach n c \<Longrightarrow> cluster_inv n c"
  by (induction rule: cluster_reach.induct) (auto simp: connect_cluster intro: cluster_new_inv kill_inv check_inv)

section \<open>Properties\<close>



text \<open>
  a connection attempt uses a live endpoint, and an endpoint that died is live again
  exactly when its backoff has passed; with no live endpoint left the application gets an
  error and nothing is connected.
\<close>

theorem connect_uses_live_endpoint:
  assumes "cluster_reach n c" "\<forall>k > 0. dis k < k"
  shows "set (liveEndpoints (snd (cluster_connect cfg dis conn_connect sock now c))) =
      set (liveEndpoints c) \<union> {p \<in> set (deadEndpoints c). MINIMUM_BACKOFF_SECS \<le> secs_since_last_try now (endpoints c p)} \<and>
    (if liveEndpoints (snd (cluster_connect cfg dis conn_connect sock now c)) = []
     then fst (cluster_connect cfg dis conn_connect sock now c) = (None, connection_error_of ''no nodes available'')
     else \<exists>p \<in> set (liveEndpoints (snd (cluster_connect cfg dis conn_connect sock now c))).
            fst (cluster_connect cfg dis conn_connect sock now c) =
              (\<lambda>(r, conn). connection_result r conn)
                (conn_connect (connection_base_out sock (network_endpoint (endpoints c p)) (client_maxMessageSize cfg))))"
proof -
  let ?c = "check_for_expired_deaths now c"
  have inv: "cluster_inv n c" using assms(1) by (rule cluster_reach_inv)
  then have d: "distinct (deadEndpoints c)" by (simp add: cluster_inv_def)
  have live: "set (liveEndpoints ?c) =
      set (liveEndpoints c) \<union> {p \<in> set (deadEndpoints c). MINIMUM_BACKOFF_SECS \<le> secs_since_last_try now (endpoints c p)}"
    using inv by (auto simp: check_for_expired_deaths_eq [OF d] ready_for_retry_def cluster_inv_def)
  have net: "network_endpoint (endpoints ?c p) = network_endpoint (endpoints c p)" for p
    by (simp add: check_for_expired_deaths_eq [OF d] mark_up_def)
  have "random_endpoint dis ?c \<in> set (liveEndpoints ?c)" if "liveEndpoints ?c \<noteq> []"
    using that assms(2) by (simp add: random_endpoint_def random_select_def)
  then show ?thesis
    unfolding connect_cluster live [symmetric]
    by (auto simp: cluster_connect_def try_connect_next_endpoint_def Let_def cluster_connection_new_def net
        split: prod.split intro!: bexI [of _ "random_endpoint dis ?c"])
qed

theorem connect_uses_live_endpoint_witness:
  "set (liveEndpoints (snd (cluster_connect client_settings_new (\<lambda>k. 0) (\<lambda>conn. (success, conn)) () 7
       (cluster_new [endpoint_host_port ''a'' 1])))) = {0}"
  using connect_uses_live_endpoint [OF reach_new, of "[endpoint_host_port ''a'' 1]" 1 "\<lambda>k. 0" client_settings_new
      "\<lambda>conn. (success, conn)" "()" 7]
  by (simp add: cluster_new_def)

end
