(* ===== verification/Node_Main.thy ===== *)
theory Node_Main
  imports Node_Ring Account Uint128_Text Net_Result
begin

text \<open>
  \<open>node/src/server.cpp\<close>, \<open>node/src/node-main.cpp\<close> and \<open>node/src/nodetool-main.cpp\<close>: the two
  programs and the accept loop.  The option parser is a parameter: \<open>parse\<close> is the result of
  \<open>parse_command_line\<close>, \<open>store\<close> and \<open>notify\<close> on the command line, \<open>read_config\<close> opens a file
  (\<open>None\<close> when that fails) and stores its options.  Values are stored at the types the
  option descriptions give; \<open>as\<close> on a value that is missing or of another type throws.
\<close>

section \<open>Options\<close>

datatype option_value =
    Opt_flag
  | Opt_string string
  | Opt_u16 u16
  | Opt_u32 u32
  | Opt_int "32 word"
  | Opt_strings "string list"

type_synonym variables_map = "string \<Rightarrow> option_value option"

datatype options_error = options_error string

definition bad_any_cast :: options_error where
  "bad_any_cast = options_error ''boost::bad_any_cast: failed conversion using boost::any_cast''"

definition as_string :: "variables_map \<Rightarrow> string \<Rightarrow> options_error + string" where
  "as_string vm n = (case vm n of Some (Opt_string x) \<Rightarrow> Inr x | _ \<Rightarrow> Inl bad_any_cast)"

definition as_u16 :: "variables_map \<Rightarrow> string \<Rightarrow> options_error + u16" where
  "as_u16 vm n = (case vm n of Some (Opt_u16 x) \<Rightarrow> Inr x | _ \<Rightarrow> Inl bad_any_cast)"

definition as_u32 :: "variables_map \<Rightarrow> string \<Rightarrow> options_error + u32" where
  "as_u32 vm n = (case vm n of Some (Opt_u32 x) \<Rightarrow> Inr x | _ \<Rightarrow> Inl bad_any_cast)"

definition as_int :: "variables_map \<Rightarrow> string \<Rightarrow> options_error + 32 word" where
  "as_int vm n = (case vm n of Some (Opt_int x) \<Rightarrow> Inr x | _ \<Rightarrow> Inl bad_any_cast)"

definition as_strings :: "variables_map \<Rightarrow> string \<Rightarrow> options_error + string list" where
  "as_strings vm n = (case vm n of Some (Opt_strings x) \<Rightarrow> Inr x | _ \<Rightarrow> Inl bad_any_cast)"

definition required_options :: "string list" where
  "required_options = [''range'', ''bind_addr'', ''port'', ''storage_nodes'', ''seed_nodes'']"

text \<open>
  The assignments to the settings, in order; an exception keeps those made before it.
\<close>

definition assign :: "(options_error + 'a) \<Rightarrow> ('a \<Rightarrow> settings \<Rightarrow> settings) \<Rightarrow> bool \<times> settings \<Rightarrow> bool \<times> settings" where
  "assign r f = (\<lambda>(ok, s). if ok then (case r of Inl _ \<Rightarrow> (False, s) | Inr x \<Rightarrow> (True, f x s)) else (False, s))"

definition assign_settings :: "variables_map \<Rightarrow> settings \<Rightarrow> bool \<times> settings" where
  "assign_settings vm s =
     (assign (as_string vm ''unit_test_username'') (\<lambda>x. unitTestUsername_update (\<lambda>_. x)) \<circ>
      assign (as_int vm ''phi_failure_threshold'') (\<lambda>x. phiFailureThreshold_update (\<lambda>_. x)) \<circ>
      assign (as_u32 vm ''max_message_size'') (\<lambda>x. maxMessageSize_update (\<lambda>_. x)) \<circ>
      assign (as_strings vm ''seed_nodes'') (\<lambda>x. mqSeeds_update (\<lambda>_. x)) \<circ>
      assign (as_strings vm ''storage_nodes'') (\<lambda>x. cassandraSeeds_update (\<lambda>_. x)) \<circ>
      assign (as_u16 vm ''port'') (\<lambda>x. bindPort_update (\<lambda>_. x)) \<circ>
      assign (as_string vm ''bind_addr'') (\<lambda>x. bindAddress_update (\<lambda>_. x)) \<circ>
      assign (as_string vm ''range'') (\<lambda>x. range_setting_update (\<lambda>_. uint128_of_string x)))
       (True, s)"

definition check_required :: "variables_map \<Rightarrow> settings \<Rightarrow> bool \<times> settings" where
  "check_required vm s =
     (if list_ex (\<lambda>opt. vm opt = None) required_options then (False, s) else assign_settings vm s)"

definition process_options ::
  "options_error + variables_map \<Rightarrow> (string \<Rightarrow> (variables_map \<Rightarrow> options_error + variables_map) option) \<Rightarrow> settings
     \<Rightarrow> bool \<times> settings" where
  "process_options parse read_config s =
     (case parse of
        Inl _ \<Rightarrow> (False, s)
      | Inr vm \<Rightarrow>
          if vm ''help'' \<noteq> None then (False, s)
          else (case (case vm ''config_file'' of None \<Rightarrow> Inr '''' | Some _ \<Rightarrow> as_string vm ''config_file'') of
                  Inl _ \<Rightarrow> (False, s)
                | Inr configFile \<Rightarrow>
                    if configFile \<noteq> '''' then
                      (case read_config configFile of
                         None \<Rightarrow> (False, s)
                       | Some store \<Rightarrow>
                           (case store vm of
                              Inl _ \<Rightarrow> (False, s)
                            | Inr vm \<Rightarrow> check_required vm s))
                    else check_required vm s))"

section \<open>The server\<close>

record server =
  srv_port :: u16
  srv_connections :: "nat set"
  srv_stopping :: bool
  srv_ring :: ring
  srv_accepts :: nat

text \<open>
  The constructor adds this node to the ring: \<open>get_self\<close> creates it once, behind the
  pointer \<open>self\<close>.
\<close>

definition server_new ::
  "settings \<Rightarrow> time_point \<Rightarrow> node_clock \<Rightarrow> node_ptr \<Rightarrow> u16 \<Rightarrow> node_heap \<Rightarrow> (ring_error + server) \<times> node_heap" where
  "server_new cfg now uclock self p h =
     (let h = h(self := init_local_operations (get_self cfg now uclock None))
      in (andthen (add_node h self ring_new) (\<lambda>r.
            Inr \<lparr>srv_port = p, srv_connections = {}, srv_stopping = False, srv_ring = r, srv_accepts = 0\<rparr>), h))"

definition accept_new :: "server \<Rightarrow> server" where
  "accept_new s = s\<lparr>srv_accepts := srv_accepts s + 1\<rparr>"

definition server_start :: "server \<Rightarrow> server" where
  "server_start s = accept_new s"

definition server_stop :: "server \<Rightarrow> server" where
  "server_stop s = s\<lparr>srv_stopping := True\<rparr>"

definition connection_started :: "nat \<Rightarrow> server \<Rightarrow> server" where
  "connection_started conn s = s\<lparr>srv_connections := insert conn (srv_connections s)\<rparr>"

definition connection_terminated :: "nat \<Rightarrow> server \<Rightarrow> server" where
  "connection_terminated conn s = s\<lparr>srv_connections := srv_connections s - {conn}\<rparr>"

text \<open>
  \<open>started\<close> is what \<open>conn->start\<close> did: it registered the connection, or threw a network
  error before that.
\<close>

definition handle_accept :: "nat \<Rightarrow> bool \<Rightarrow> error_code \<Rightarrow> server \<Rightarrow> server" where
  "handle_accept conn started error s =
     (let s = s\<lparr>srv_accepts := srv_accepts s - 1\<rparr>
      in if srv_stopping s then s
         else if error = None
         then accept_new (if started then connection_started conn s else s)
         else accept_new s)"

text \<open>The program up to the event loop: its exit code, or the running server.\<close>

definition node_main ::
  "options_error + variables_map \<Rightarrow> (string \<Rightarrow> (variables_map \<Rightarrow> options_error + variables_map) option) \<Rightarrow> time_point
     \<Rightarrow> node_clock \<Rightarrow> node_ptr \<Rightarrow> node_heap \<Rightarrow> settings \<Rightarrow> nat + (ring_error + server) \<times> node_heap \<times> settings" where
  "node_main parse read_config now uclock self h s =
     (case process_options parse read_config s of
        (False, _) \<Rightarrow> Inl 1
      | (True, s) \<Rightarrow>
          (case server_new s now uclock self (bindPort s) h of
             (r, h) \<Rightarrow> Inr (andthen r (\<lambda>srv. Inr (server_start srv)), h, s)))"

section \<open>The node tool\<close>

definition nodetool_process_options :: "options_error + variables_map \<Rightarrow> settings \<Rightarrow> bool \<times> settings" where
  "nodetool_process_options parse s =
     (case parse of
        Inl _ \<Rightarrow> (False, s)
      | Inr vm \<Rightarrow>
          if vm ''help'' \<noteq> None then (False, s)
          else if vm ''storage_nodes'' \<noteq> None
          then (case as_strings vm ''storage_nodes'' of
                  Inl _ \<Rightarrow> (False, s)
                | Inr x \<Rightarrow> (True, s\<lparr>cassandraSeeds := x\<rparr>))
          else (True, s))"

definition do_init :: "'db cass_driver \<Rightarrow> variables_map \<Rightarrow> 'db \<Rightarrow> nat \<times> 'db" where
  "do_init drv vm db =
     (if vm ''storage_nodes'' = None then (1, db)
      else (case cassandra_init drv db of
              (Inl _, db) \<Rightarrow> (1, db)
            | (Inr _, db) \<Rightarrow> (0, db)))"

definition do_create_user ::
  "(u8 list \<Rightarrow> u8 list) \<Rightarrow> (u8 list \<Rightarrow> string) \<Rightarrow> (string \<Rightarrow> 32 word option) \<Rightarrow> 'db cass_driver \<Rightarrow> variables_map \<Rightarrow> 'db
     \<Rightarrow> nat \<times> 'db" where
  "do_create_user sha hex cast_int drv vm db =
     (if vm ''storage_nodes'' = None then (1, db)
      else (case as_strings vm ''args'' of
              Inr [name, password, level] \<Rightarrow>
                (case cast_int level of
                   None \<Rightarrow> (1, db)
                 | Some userLevel \<Rightarrow>
                     (case account_create sha hex drv name password userLevel db of
                        (Inl _, db) \<Rightarrow> (1, db)
                      | (Inr _, db) \<Rightarrow> (0, db)))
            | _ \<Rightarrow> (1, db)))"

definition nodetool_main ::
  "(u8 list \<Rightarrow> u8 list) \<Rightarrow> (u8 list \<Rightarrow> string) \<Rightarrow> (string \<Rightarrow> 32 word option) \<Rightarrow> (settings \<Rightarrow> 'db cass_driver)
     \<Rightarrow> options_error + variables_map \<Rightarrow> settings \<Rightarrow> 'db \<Rightarrow> nat \<times> 'db" where
  "nodetool_main sha hex cast_int drv parse s db =
     (case (nodetool_process_options parse s, parse) of
        ((True, s), Inr vm) \<Rightarrow>
          if vm ''init'' \<noteq> None then do_init (drv s) vm db
          else if vm ''create_user'' \<noteq> None then do_create_user sha hex cast_int (drv s) vm db
          else (1, db)
      | _ \<Rightarrow> (1, db))"

text \<open>Options as the command line of a first node gives them.\<close>

definition sample_options :: variables_map where
  "sample_options =
     [''range'' \<mapsto> Opt_string ''0'', ''bind_addr'' \<mapsto> Opt_string ''::'', ''port'' \<mapsto> Opt_u16 8481,
      ''storage_nodes'' \<mapsto> Opt_strings [''db''], ''seed_nodes'' \<mapsto> Opt_strings [], ''max_message_size'' \<mapsto> Opt_u32 9,
      ''phi_failure_threshold'' \<mapsto> Opt_int 7, ''unit_test_username'' \<mapsto> Opt_string '''']"

section \<open>Lemmas\<close>

lemma assign_keeps: "(\<And>x s. g (f x s) = g s) \<Longrightarrow> g (snd (assign r f p)) = g (snd p)"
  by (cases p) (simp add: assign_def split: sum.split)

lemma assign_settings_keeps:
  "nodeId (snd (assign_settings vm s)) = nodeId s" "ringKey (snd (assign_settings vm s)) = ringKey s"
  unfolding assign_settings_def comp_apply by (simp_all add: assign_keeps [of nodeId] assign_keeps [of ringKey])

lemma process_options_keeps:
  "nodeId (snd (process_options parse read_config s)) = nodeId s"
  "ringKey (snd (process_options parse read_config s)) = ringKey s"
  by (simp_all add: process_options_def check_required_def assign_settings_keeps split: sum.split option.split)

lemma assign_Inr [simp]: "assign (Inr x) f (True, s) = (True, f x s)"
  by (simp add: assign_def)

lemma sample_options_accepted:
  "process_options (Inr sample_options) rc (settings_new 2 3) =
     (True, (settings_new 2 3)\<lparr>range_setting := uint128_of_string ''0'', bindAddress := ''::'', bindPort := 8481,
        cassandraSeeds := [''db''], mqSeeds := [], maxMessageSize := 9, phiFailureThreshold := 7, unitTestUsername := ''''\<rparr>)"
  by (simp add: process_options_def check_required_def required_options_def assign_settings_def as_string_def as_u16_def
      as_u32_def as_int_def as_strings_def settings_new_def sample_options_def)

section \<open>Properties\<close>

text \<open>
  When the options are accepted the node comes up: its ring holds exactly this node, at
  the start of the range that was configured, with the operations of a local node in
  place, and one accept is outstanding.  No option sets the node id or the ring key: they
  are what they were before, an uninitialised number and the empty string.
\<close>

lemma node_main_joins_ring:
  assumes "fst (process_options parse read_config s)"
  shows "\<exists>srv h' s'. node_main parse read_config now uclock self h s = Inr (Inr srv, h', s') \<and>
    s' = snd (process_options parse read_config s) \<and>
    ring_by_range (srv_ring srv) = [(range_setting s', self)] \<and> operations_handler (h' self) = Some local_node_operations \<and>
    srv_accepts srv = 1 \<and> nodeId s' = nodeId s \<and> ringKey s' = ringKey s"
proof -
  obtain s' where p: "process_options parse read_config s = (True, s')" using assms by (metis prod.collapse)
  then have "nodeId s' = nodeId s" "ringKey s' = ringKey s"
    using process_options_keeps [of parse read_config s] by simp_all
  then show ?thesis
    by (simp add: node_main_def p server_new_def Let_def add_node_def check_no_conflict_def ring_new_def server_start_def
        accept_new_def get_self_def node_new_def init_local_operations_def)
qed

end
