(* ===== verification/Gtest_Text.thy ===== *)
theory Gtest_Text
  imports Sopmq_Prelude
begin

text \<open>
  The text functions of the bundled test framework (\<open>gtest-1.7.0/src/gtest.cc\<close>): number
  formatting, comparison of C strings, the UTF-8 encoder for wide strings, and the escaping
  of XML attributes, CDATA sections and streamed results.

  A \<open>const char*\<close> is the list of the characters before its terminating NUL, with \<open>None\<close>
  for the null pointer where the code tests for it; a \<open>std::string\<close> is the list of all its
  characters.  Output streams are the strings written to them.  The width of \<open>wchar_t\<close> in
  bytes is an argument; a wide character is a \<open>u32\<close>.
\<close>

unbundle bit_operations_syntax

abbreviation NUL :: char where "NUL \<equiv> CHR 0x00"
abbreviation NL :: char where "NL \<equiv> CHR 0x0A"

section \<open>Numbers as text\<close>

text \<open>What \<open>operator<<\<close> of an output stream prints for an integer, in the stream's base.\<close>

definition upper_digit :: "nat \<Rightarrow> char" where
  "upper_digit k = ''0123456789ABCDEF'' ! k"

fun show_base :: "nat \<Rightarrow> nat \<Rightarrow> string" where
  "show_base b n =
     (if b < 2 \<or> n < b then [upper_digit n] else show_base b (n div b) @ [upper_digit (n mod b)])"

declare show_base.simps [simp del]

definition show_int :: "int \<Rightarrow> string" where
  "show_int i = (if i < 0 then CHR ''-'' # show_base 10 (nat (- i)) else show_base 10 (nat i))"

text \<open>\<open>std::setfill('0') << std::setw(2)\<close>.\<close>

definition pad2 :: "string \<Rightarrow> string" where
  "pad2 s = replicate (2 - length s) (CHR ''0'') @ s"

definition FormatIntWidth2 :: "int \<Rightarrow> string" where
  "FormatIntWidth2 i = pad2 (show_int i)"

definition FormatHexInt :: "u32 \<Rightarrow> string" where
  "FormatHexInt i = show_base 16 (unat i)"

definition FormatByte :: "u8 \<Rightarrow> string" where
  "FormatByte v = pad2 (show_base 16 (unat v))"

section \<open>Strings\<close>

definition CStringEquals :: "string option \<Rightarrow> string option \<Rightarrow> bool" where
  "CStringEquals lhs rhs =
     (case lhs of None \<Rightarrow> rhs = None | Some l \<Rightarrow> (case rhs of None \<Rightarrow> False | Some r \<Rightarrow> l = r))"

definition to_lower :: "char \<Rightarrow> char" where
  "to_lower c = (let n = (of_char c :: nat) in if 65 \<le> n \<and> n \<le> 90 then char_of (n + 32) else c)"

definition to_upper :: "char \<Rightarrow> char" where
  "to_upper c = (let n = (of_char c :: nat) in if 97 \<le> n \<and> n \<le> 122 then char_of (n - 32) else c)"

definition CaseInsensitiveCStringEquals :: "string option \<Rightarrow> string option \<Rightarrow> bool" where
  "CaseInsensitiveCStringEquals lhs rhs =
     (case lhs of None \<Rightarrow> rhs = None
      | Some l \<Rightarrow> (case rhs of None \<Rightarrow> False | Some r \<Rightarrow> map to_lower l = map to_lower r))"

text \<open>The characters that \<open>c_str\<close> of a string shows to a function on C strings.\<close>

definition c_str :: "string \<Rightarrow> string" where
  "c_str s = takeWhile (\<lambda>c. c \<noteq> NUL) s"

definition EndsWithCaseInsensitive :: "string \<Rightarrow> string \<Rightarrow> bool" where
  "EndsWithCaseInsensitive str suffix \<longleftrightarrow>
     length suffix \<le> length str \<and>
     CaseInsensitiveCStringEquals (Some (c_str (drop (length str - length suffix) str))) (Some (c_str suffix))"

fun StringStreamToString :: "string \<Rightarrow> string" where
  "StringStreamToString [] = []"
| "StringStreamToString (ch # cs) =
     (if ch = NUL then [CHR 0x5C, CHR ''0''] else [ch]) @ StringStreamToString cs"

definition AppendUserMessage :: "string \<Rightarrow> string \<Rightarrow> string" where
  "AppendUserMessage gtest_msg user_msg =
     (let user_msg_string = StringStreamToString user_msg
      in if user_msg_string = [] then gtest_msg else gtest_msg @ NL # user_msg_string)"

section \<open>UTF-8\<close>

definition kMaxCodePoint1 :: u32 where "kMaxCodePoint1 = push_bit 7 1 - 1"
definition kMaxCodePoint2 :: u32 where "kMaxCodePoint2 = push_bit (5 + 6) 1 - 1"
definition kMaxCodePoint3 :: u32 where "kMaxCodePoint3 = push_bit (4 + 2 * 6) 1 - 1"
definition kMaxCodePoint4 :: u32 where "kMaxCodePoint4 = push_bit (3 + 3 * 6) 1 - 1"

text \<open>The low bits and the bits that are left.\<close>

definition ChopLowBits :: "u32 \<Rightarrow> nat \<Rightarrow> u32 \<times> u32" where
  "ChopLowBits bits n = (bits AND (push_bit n 1 - 1), drop_bit n bits)"

text \<open>\<open>static_cast<char>\<close> of an unsigned number.\<close>

definition cast_char :: "u32 \<Rightarrow> char" where
  "cast_char w = byte_char (ucast w)"

definition CodePointToUtf8 :: "u32 \<Rightarrow> string" where
  "CodePointToUtf8 code_point =
     (if code_point > kMaxCodePoint4 then ''(Invalid Unicode 0x'' @ FormatHexInt code_point @ '')''
      else if code_point \<le> kMaxCodePoint1 then c_str [cast_char code_point]
      else if code_point \<le> kMaxCodePoint2 then
        (let (b1, code_point) = ChopLowBits code_point 6
         in c_str [cast_char (0xC0 OR code_point), cast_char (0x80 OR b1)])
      else if code_point \<le> kMaxCodePoint3 then
        (let (b2, code_point) = ChopLowBits code_point 6;
             (b1, code_point) = ChopLowBits code_point 6
         in c_str [cast_char (0xE0 OR code_point), cast_char (0x80 OR b1), cast_char (0x80 OR b2)])
      else
        (let (b3, code_point) = ChopLowBits code_point 6;
             (b2, code_point) = ChopLowBits code_point 6;
             (b1, code_point) = ChopLowBits code_point 6
         in c_str [cast_char (0xF0 OR code_point), cast_char (0x80 OR b1), cast_char (0x80 OR b2),
                   cast_char (0x80 OR b3)]))"

definition IsUtf16SurrogatePair :: "nat \<Rightarrow> u32 \<Rightarrow> u32 \<Rightarrow> bool" where
  "IsUtf16SurrogatePair wchar_size first second \<longleftrightarrow>
     wchar_size = 2 \<and> first AND 0xFC00 = 0xD800 \<and> second AND 0xFC00 = 0xDC00"

definition CreateCodePointFromUtf16SurrogatePair :: "nat \<Rightarrow> u32 \<Rightarrow> u32 \<Rightarrow> u32" where
  "CreateCodePointFromUtf16SurrogatePair wchar_size first second =
     (let mask = push_bit 10 1 - 1
      in if wchar_size = 2 then (push_bit 10 (first AND mask) OR (second AND mask)) + 0x10000 else first)"

text \<open>The loop of \<open>WideStringToUtf8\<close>, on the characters that are left of the first \<open>num_chars\<close>.\<close>

fun WideStringToUtf8_loop :: "nat \<Rightarrow> u32 list \<Rightarrow> string" where
  "WideStringToUtf8_loop wchar_size [] = []"
| "WideStringToUtf8_loop wchar_size [c] = (if c = 0 then [] else CodePointToUtf8 c)"
| "WideStringToUtf8_loop wchar_size (c # d # str) =
     (if c = 0 then []
      else if IsUtf16SurrogatePair wchar_size c d
      then CodePointToUtf8 (CreateCodePointFromUtf16SurrogatePair wchar_size c d) @ WideStringToUtf8_loop wchar_size str
      else CodePointToUtf8 c @ WideStringToUtf8_loop wchar_size (d # str))"

definition WideStringToUtf8 :: "nat \<Rightarrow> u32 list \<Rightarrow> int \<Rightarrow> string" where
  "WideStringToUtf8 wchar_size str num_chars =
     (let str = (if num_chars = -1 then takeWhile (\<lambda>c. c \<noteq> 0) str else take (nat num_chars) str)
      in StringStreamToString (WideStringToUtf8_loop wchar_size str))"

definition ShowWideCString :: "nat \<Rightarrow> u32 list option \<Rightarrow> string" where
  "ShowWideCString wchar_size wide_c_str =
     (case wide_c_str of None \<Rightarrow> ''(null)'' | Some s \<Rightarrow> WideStringToUtf8 wchar_size s (-1))"

definition WideCStringEquals :: "u32 list option \<Rightarrow> u32 list option \<Rightarrow> bool" where
  "WideCStringEquals lhs rhs =
     (case lhs of None \<Rightarrow> rhs = None | Some l \<Rightarrow> (case rhs of None \<Rightarrow> False | Some r \<Rightarrow> l = r))"

text \<open>
  \<open>StreamWideCharsToMessage\<close>: what it adds to the stream of the message.  Each run without
  NUL is converted, and the NULs between them are passed on.
\<close>

function StreamWideCharsToMessage :: "nat \<Rightarrow> u32 list \<Rightarrow> string" where
  "StreamWideCharsToMessage wchar_size [] = []"
| "StreamWideCharsToMessage wchar_size (c # wstr) =
     (if c \<noteq> 0 then WideStringToUtf8 wchar_size (c # wstr) (int (length (c # wstr))) @
        StreamWideCharsToMessage wchar_size (dropWhile (\<lambda>c. c \<noteq> 0) (c # wstr))
      else NUL # StreamWideCharsToMessage wchar_size wstr)"
  by pat_completeness auto
termination
  by (relation "measure (\<lambda>(_, s). length s)") (auto simp: le_imp_less_Suc length_dropWhile_le)

section \<open>XML and streamed results\<close>

text \<open>Comparisons of a \<open>char\<close>, which is signed, with a number.\<close>

definition schar :: "char \<Rightarrow> int" where
  "schar c = sint (char_byte c)"

definition IsNormalizableWhitespace :: "char \<Rightarrow> bool" where
  "IsNormalizableWhitespace c \<longleftrightarrow> schar c = 0x9 \<or> schar c = 0xA \<or> schar c = 0xD"

definition IsValidXmlCharacter :: "char \<Rightarrow> bool" where
  "IsValidXmlCharacter c \<longleftrightarrow> IsNormalizableWhitespace c \<or> schar c \<ge> 0x20"

definition EscapeXml_char :: "bool \<Rightarrow> char \<Rightarrow> string" where
  "EscapeXml_char is_attribute ch =
     (if ch = CHR ''<'' then ''&lt;''
      else if ch = CHR ''>'' then ''&gt;''
      else if ch = CHR ''&'' then ''&amp;''
      else if ch = CHR 0x27 then (if is_attribute then ''&apos;'' else [CHR 0x27])
      else if ch = CHR 0x22 then (if is_attribute then ''&quot;'' else [CHR 0x22])
      else if IsValidXmlCharacter ch then
        (if is_attribute \<and> IsNormalizableWhitespace ch
         then ''&#x'' @ FormatByte (char_byte ch) @ '';'' else [ch])
      else [])"

definition EscapeXml :: "string \<Rightarrow> bool \<Rightarrow> string" where
  "EscapeXml str is_attribute = StringStreamToString (concat (map (EscapeXml_char is_attribute) str))"

definition RemoveInvalidXmlCharacters :: "string \<Rightarrow> string" where
  "RemoveInvalidXmlCharacters str = filter IsValidXmlCharacter str"

definition EscapeXmlAttribute :: "string \<Rightarrow> string" where
  "EscapeXmlAttribute str = EscapeXml str True"

definition EscapeXmlText :: "string \<Rightarrow> string" where
  "EscapeXmlText str = EscapeXml str False"

text \<open>\<open>strstr(segment, "]]>")\<close> splits the data at the next end mark of a CDATA section.\<close>

fun split_cdata_end :: "string \<Rightarrow> (string \<times> string) option" where
  "split_cdata_end [] = None"
| "split_cdata_end (c # s) =
     (if take 3 (c # s) = '']]>'' then Some ([], drop 3 (c # s))
      else map_option (\<lambda>(a, b). (c # a, b)) (split_cdata_end s))"

lemma split_cdata_end_length: "split_cdata_end s = Some (a, b) \<Longrightarrow> length b < length s"
  by (induction s arbitrary: a b) (auto split: if_splits)

function OutputXmlCDataSection_loop :: "string \<Rightarrow> string" where
  "OutputXmlCDataSection_loop segment =
     (case split_cdata_end segment of
        Some (before, next_segment) \<Rightarrow>
          before @ '']]>]]&gt;<![CDATA['' @ OutputXmlCDataSection_loop next_segment
      | None \<Rightarrow> segment)"
  by pat_completeness auto
termination
  by (relation "measure length") (auto dest: split_cdata_end_length)

declare OutputXmlCDataSection_loop.simps [simp del]

definition OutputXmlCDataSection :: "string \<Rightarrow> string" where
  "OutputXmlCDataSection data = ''<![CDATA['' @ OutputXmlCDataSection_loop data @ '']]>''"

definition UrlEncode :: "string \<Rightarrow> string" where
  "UrlEncode str =
     concat (map (\<lambda>ch. if ch \<in> {CHR ''%'', CHR ''='', CHR ''&'', NL} then CHR ''%'' # FormatByte (char_byte ch) else [ch]) str)"

section \<open>Reference readers\<close>

text \<open>
  UTF-8 on numbers, as the table in the comment above \<open>CodePointToUtf8\<close> gives it, with a
  decoder; UTF-16; and what an XML parser makes of an attribute value and of element
  content that consists of text, references and CDATA sections.
\<close>

fun utf8 :: "nat \<Rightarrow> nat list" where
  "utf8 n =
     (if n < 0x80 then [n]
      else if n < 0x800 then [0xC0 + n div 64, 0x80 + n mod 64]
      else if n < 0x10000 then [0xE0 + n div 64 div 64, 0x80 + n div 64 mod 64, 0x80 + n mod 64]
      else [0xF0 + n div 64 div 64 div 64, 0x80 + n div 64 div 64 mod 64, 0x80 + n div 64 mod 64, 0x80 + n mod 64])"

fun utf8_decode :: "nat list \<Rightarrow> nat list option" where
  "utf8_decode [] = Some []"
| "utf8_decode (b # bs) =
     (if b < 0x80 then map_option (Cons b) (utf8_decode bs)
      else if 0xC0 \<le> b \<and> b < 0xE0 then
        (case bs of
           b1 # bs \<Rightarrow>
             if b1 div 64 = 2
             then map_option (Cons ((b - 0xC0) * 64 + b1 mod 64)) (utf8_decode bs) else None
         | _ \<Rightarrow> None)
      else if 0xE0 \<le> b \<and> b < 0xF0 then
        (case bs of
           b1 # b2 # bs \<Rightarrow>
             if b1 div 64 = 2 \<and> b2 div 64 = 2
             then map_option (Cons (((b - 0xE0) * 64 + b1 mod 64) * 64 + b2 mod 64)) (utf8_decode bs) else None
         | _ \<Rightarrow> None)
      else if 0xF0 \<le> b \<and> b < 0xF8 then
        (case bs of
           b1 # b2 # b3 # bs \<Rightarrow>
             if b1 div 64 = 2 \<and> b2 div 64 = 2 \<and> b3 div 64 = 2
             then map_option (Cons ((((b - 0xF0) * 64 + b1 mod 64) * 64 + b2 mod 64) * 64 + b3 mod 64)) (utf8_decode bs)
             else None
         | _ \<Rightarrow> None)
      else None)"

definition utf16 :: "nat \<Rightarrow> u32 list" where
  "utf16 n = (if n < 0x10000 then [of_nat n]
     else [of_nat (0xD800 + (n - 0x10000) div 1024), of_nat (0xDC00 + (n - 0x10000) mod 1024)])"

definition unicode_scalar :: "nat \<Rightarrow> bool" where
  "unicode_scalar n \<longleftrightarrow> 0 < n \<and> n < 0x110000 \<and> \<not> (0xD800 \<le> n \<and> n < 0xE000)"

definition xml_references :: "(string \<times> char) list" where
  "xml_references =
     [(''&lt;'', CHR ''<''), (''&gt;'', CHR ''>''), (''&amp;'', CHR ''&''), (''&apos;'', CHR 0x27), (''&quot;'', CHR 0x22),
      (''&#x09;'', CHR 0x09), (''&#x0A;'', CHR 0x0A), (''&#x0D;'', CHR 0x0D)]"

definition read_reference :: "string \<Rightarrow> (string \<times> char) option" where
  "read_reference s = find (\<lambda>(r, _). take (length r) s = r) xml_references"

fun read_attribute :: "string \<Rightarrow> string option" where
  "read_attribute [] = Some []"
| "read_attribute (c # s) =
     (if c = CHR ''&'' then
        (case read_reference (c # s) of
           Some (r, x) \<Rightarrow> map_option (Cons x) (read_attribute (drop (length r - 1) s))
         | None \<Rightarrow> None)
      else if c = CHR ''<'' \<or> c = CHR 0x22 then None
      else if c \<in> {CHR 0x09, CHR 0x0A, CHR 0x0D} then map_option (Cons (CHR '' '')) (read_attribute s)
      else map_option (Cons c) (read_attribute s))"

function read_content :: "string \<Rightarrow> string option" where
  "read_content [] = Some []"
| "read_content (c # s) =
     (if take 9 (c # s) = ''<![CDATA['' then
        (case split_cdata_end (drop 9 (c # s)) of
           Some (data, s) \<Rightarrow> map_option ((@) data) (read_content s)
         | None \<Rightarrow> None)
      else if c = CHR ''&'' then
        (case read_reference (c # s) of
           Some (r, x) \<Rightarrow> map_option (Cons x) (read_content (drop (length r - 1) s))
         | None \<Rightarrow> None)
      else if c = CHR ''<'' \<or> take 3 (c # s) = '']]>'' then None
      else map_option (Cons c) (read_content s))"
  by pat_completeness auto
termination
  by (relation "measure length") (auto dest!: split_cdata_end_length)

section \<open>UTF-8\<close>

lemma or_add_low:
  fixes b :: nat
  assumes "b < 2 ^ n"
  shows "a * 2 ^ n OR b = a * 2 ^ n + b"
proof -
  have "\<not> bit (a * 2 ^ n) m \<or> \<not> bit b m" for m
    by (metis assms bit_take_bit_iff bit_push_bit_iff_nat linorder_not_less push_bit_eq_mult take_bit_nat_eq_self)
  then show ?thesis by (simp add: disjunctive_add)
qed

lemma of_char_cast_char: "of_char (cast_char w) = unat w mod 256"
  by (simp add: cast_char_def byte_char_def of_char_of unsigned_ucast_eq take_bit_eq_mod)

lemma unat_or_low: "unat b < 2 ^ n \<Longrightarrow> unat c = a * 2 ^ n \<Longrightarrow> unat (c OR b) = unat c + unat (b :: u32)"
  using or_add_low [of "unat b" n a] by (simp add: unsigned_or_eq)

lemma unat_and_mask: "unat (w AND mask n) = unat (w :: u32) mod 2 ^ n"
  by (metis take_bit_eq_mask take_bit_eq_mod unsigned_take_bit_eq)

lemma ChopLowBits_unat [simp]:
  "unat (fst (ChopLowBits bits 6)) = unat bits mod 64" "unat (snd (ChopLowBits bits 6)) = unat bits div 64"
  using unat_and_mask [of bits 6] unat_drop_bit_eq [of 6 bits] drop_bit_eq_div [of 6 "unat bits"]
  by (simp_all add: ChopLowBits_def mask_eq_exp_minus_1)

lemma kMaxCodePoint_values:
  "kMaxCodePoint1 = 0x7F" "kMaxCodePoint2 = 0x7FF" "kMaxCodePoint3 = 0xFFFF" "kMaxCodePoint4 = 0x1FFFFF"
  by (simp_all add: kMaxCodePoint1_def kMaxCodePoint2_def kMaxCodePoint3_def kMaxCodePoint4_def push_bit_eq_mult)

lemma lead_bytes:
  "unat b < 32 \<Longrightarrow> unat (0xC0 OR b :: u32) = 0xC0 + unat b"
  "unat b < 16 \<Longrightarrow> unat (0xE0 OR b :: u32) = 0xE0 + unat b"
  "unat b < 8 \<Longrightarrow> unat (0xF0 OR b :: u32) = 0xF0 + unat b"
  "unat b < 64 \<Longrightarrow> unat (0x80 OR b :: u32) = 0x80 + unat b"
  using unat_or_low [of b 5 "0xC0" 6] unat_or_low [of b 4 "0xE0" 14] unat_or_low [of b 3 "0xF0" 30]
    unat_or_low [of b 6 "0x80" 2]
  by simp_all

lemma c_str_all: "NUL \<notin> set s \<Longrightarrow> c_str s = s"
  by (auto simp: c_str_def takeWhile_eq_all_conv)

lemma cast_char_neq_NUL: "unat w mod 256 \<noteq> 0 \<Longrightarrow> cast_char w \<noteq> NUL"
  using of_char_cast_char [of w] by fastforce

lemma CodePointToUtf8_utf8:
  assumes "code_point \<noteq> 0" "code_point \<le> kMaxCodePoint4"
  shows "map of_char (CodePointToUtf8 code_point) = utf8 (unat code_point)" "NUL \<notin> set (CodePointToUtf8 code_point)"
proof -
  let ?n = "unat code_point"
  have n: "0 < ?n" "?n < 0x200000" "\<not> kMaxCodePoint4 < code_point"
    using assms by (simp_all add: unat_gt_0 kMaxCodePoint_values word_le_nat_alt not_less)
  have d: "?n div 64 div 64 = ?n div 4096" "?n div 64 div 64 div 64 = ?n div 262144" by (simp_all flip: div_mult2_eq)
  consider "?n < 0x80" | "0x80 \<le> ?n" "?n < 0x800" | "0x800 \<le> ?n" "?n < 0x10000" | "0x10000 \<le> ?n" by linarith
  then have "map of_char (CodePointToUtf8 code_point) = utf8 ?n \<and> NUL \<notin> set (CodePointToUtf8 code_point)"
  proof cases
    case 1
    then show ?thesis
      using n by (simp add: CodePointToUtf8_def kMaxCodePoint_values word_le_nat_alt c_str_all of_char_cast_char
          cast_char_neq_NUL [THEN not_sym])
  next
    case 2
    then show ?thesis
      using n by (simp add: CodePointToUtf8_def kMaxCodePoint_values word_le_nat_alt c_str_all of_char_cast_char
          cast_char_neq_NUL [THEN not_sym] split_def Let_def lead_bytes)
  next
    case 3
    then show ?thesis
      using n by (simp add: CodePointToUtf8_def kMaxCodePoint_values word_le_nat_alt c_str_all of_char_cast_char
          cast_char_neq_NUL [THEN not_sym] split_def Let_def lead_bytes d)
  next
    case 4
    then show ?thesis
      using n by (simp add: CodePointToUtf8_def kMaxCodePoint_values word_le_nat_alt c_str_all of_char_cast_char
          cast_char_neq_NUL [THEN not_sym] split_def Let_def lead_bytes d)
  qed
  then show "map of_char (CodePointToUtf8 code_point) = utf8 ?n" "NUL \<notin> set (CodePointToUtf8 code_point)" by blast+
qed


lemma cont_byte: "(128 + n mod 64) div 64 = (2::nat)" "(128 + n mod 64) mod 64 = n mod (64::nat)"
proof -
  show "(128 + n mod 64) div 64 = (2::nat)"
    by (rule div_nat_eqI) (simp_all add: less_imp_le)
  have "(n mod 64 + 64 * 2) mod 64 = n mod 64 mod 64" by (rule mod_mult_self2)
  then show "(128 + n mod 64) mod 64 = n mod (64::nat)" by (simp add: add.commute)
qed

lemma utf8_decode_utf8:
  assumes "n < 0x200000"
  shows "utf8_decode (utf8 n @ bs) = map_option (Cons n) (utf8_decode bs)"
proof -
  have j: "n div 64 * 64 + n mod 64 = n" "n div 64 div 64 * 64 + n div 64 mod 64 = n div 64"
    "n div 64 div 64 div 64 * 64 + n div 64 div 64 mod 64 = n div 64 div 64"
    by (simp_all only: div_mult_mod_eq)
  consider "n < 0x80" | "0x80 \<le> n" "n < 0x800" | "0x800 \<le> n" "n < 0x10000" | "0x10000 \<le> n" by linarith
  then show ?thesis
  proof cases
    case 2
    then show ?thesis using j by (simp add: cont_byte div_less_iff_less_mult)
  next
    case 3
    then show ?thesis using j by (simp add: cont_byte div_less_iff_less_mult)
  next
    case 4
    then show ?thesis using assms j by (simp add: cont_byte div_less_iff_less_mult)
  qed simp
qed

lemma and_FC00: "n AND 0xFC00 = n div 1024 mod 64 * (1024 :: nat)"
proof -
  have "n AND push_bit 10 (mask 6) = push_bit 10 (take_bit 6 (drop_bit 10 n))"
    by (rule bit_eqI) (auto simp: bit_simps)
  moreover have "push_bit 10 (mask 6) = (0xFC00 :: nat)" by (simp add: mask_eq_exp_minus_1 push_bit_eq_mult)
  ultimately show ?thesis by (simp only: push_bit_eq_mult take_bit_eq_mod drop_bit_eq_div) simp
qed

lemma unat_and_FC00: "n < 0x10000 \<Longrightarrow> unat ((of_nat n :: u32) AND 0xFC00) = n div 1024 * 1024"
  by (simp add: unsigned_and_eq and_FC00 unat_of_nat take_bit_eq_mod)


lemma scalar_unat: "unicode_scalar n \<Longrightarrow> unat (of_nat n :: u32) = n"
  by (simp add: unicode_scalar_def unat_of_nat take_bit_eq_mod)

lemma scalar_nonzero: "unicode_scalar n \<Longrightarrow> (of_nat n :: u32) \<noteq> 0"
  using scalar_unat [of n] by (auto simp: unicode_scalar_def)

lemma StringStreamToString_id: "NUL \<notin> set s \<Longrightarrow> StringStreamToString s = s"
  by (induction s) auto

lemma not_pair: "\<not> IsUtf16SurrogatePair 4 c d" "\<not> 0xD800 \<le> n \<or> 0xDC00 \<le> n \<Longrightarrow> n < 0x10000 \<Longrightarrow> \<not> IsUtf16SurrogatePair 2 (of_nat n) d"
proof -
  show "\<not> IsUtf16SurrogatePair 4 c d" by (simp add: IsUtf16SurrogatePair_def)
next
  assume n: "\<not> 0xD800 \<le> n \<or> 0xDC00 \<le> n" "n < 0x10000"
  show "\<not> IsUtf16SurrogatePair 2 (of_nat n) d"
  proof
    assume "IsUtf16SurrogatePair 2 (of_nat n) d"
    then have "unat ((of_nat n :: u32) AND 0xFC00) = 0xD800" by (simp add: IsUtf16SurrogatePair_def)
    then have "n div 1024 * 1024 = 0xD800" using n by (simp add: unat_and_FC00)
    then show False using n div_mult_mod_eq [of n 1024] mod_less_divisor [of 1024 n] by linarith
  qed
qed

lemma WideStringToUtf8_loop_single:
  assumes "c \<noteq> 0" "\<And>d. \<not> IsUtf16SurrogatePair z c d"
  shows "WideStringToUtf8_loop z (c # str) = CodePointToUtf8 c @ WideStringToUtf8_loop z str"
  using assms by (cases str) auto

lemma unat_low_bits: "unat ((of_nat k :: u32) AND mask 10) = k mod 1024"
  by (simp add: unat_and_mask unat_of_nat take_bit_eq_mod mod_mod_cancel)

lemma surrogate_mod: "x < 1024 \<Longrightarrow> (0xD800 + x) mod 1024 = (x :: nat)" "x < 1024 \<Longrightarrow> (0xDC00 + x) mod 1024 = (x :: nat)"
  using mod_mult_self1 [of x 54 1024] mod_mult_self1 [of x 55 1024] by (simp_all add: add.commute)

lemma word_of_nat_unat: "of_nat (unat w) = (w :: u32)"
  by simp

lemma surrogates:
  assumes "0x10000 \<le> n" "n < 0x110000" "utf16 n = [c, d]"
  shows "IsUtf16SurrogatePair 2 c d" "CreateCodePointFromUtf16SurrogatePair 2 c d = of_nat n" "c \<noteq> 0" "d \<noteq> 0"
proof -
  let ?m = "n - 0x10000"
  have c: "c = of_nat (0xD800 + ?m div 1024)" "d = of_nat (0xDC00 + ?m mod 1024)"
    using assms by (auto simp: utf16_def)
  have b: "?m div 1024 < 1024" using assms by (simp add: div_less_iff_less_mult)
  have l: "?m mod 1024 < 1024" by simp
  have "(0xD800 + ?m div 1024) div 1024 = 54" "(0xDC00 + ?m mod 1024) div 1024 = 55"
    using b l by (auto intro!: div_nat_eqI)
  moreover have "0xD800 + ?m div 1024 < 0x10000" "0xDC00 + ?m mod 1024 < 0x10000" using b l by linarith+
  note this [THEN unat_and_FC00]
  ultimately have "unat (c AND 0xFC00) = 0xD800" "unat (d AND 0xFC00) = 0xDC00"
    unfolding c by simp_all
  then have "c AND 0xFC00 = 0xD800" "d AND 0xFC00 = 0xDC00" by (simp_all add: word_unat_eq_iff)
  then show "IsUtf16SurrogatePair 2 c d" "c \<noteq> 0" "d \<noteq> 0" by (auto simp: IsUtf16SurrogatePair_def)
  have u: "unat (c AND mask 10) = ?m div 1024" "unat (d AND mask 10) = ?m mod 1024"
    unfolding c unat_low_bits using surrogate_mod b by simp_all
  have "unat (push_bit 10 (c AND mask 10)) = ?m div 1024 * 1024"
    using u b by (subst unsigned_push_bit_eq) (simp add: push_bit_eq_mult take_bit_eq_mod)
  with u have "unat (push_bit 10 (c AND mask 10) OR (d AND mask 10)) = ?m"
    by (subst unat_or_low [where n = 10]) simp_all
  then have "push_bit 10 (c AND mask 10) OR (d AND mask 10) = of_nat ?m"
    using arg_cong [of _ _ "of_nat :: nat \<Rightarrow> u32"] by (metis word_of_nat_unat)
  moreover have "of_nat ?m + 0x10000 = (of_nat n :: u32)"
    by (metis assms(1) le_add_diff_inverse2 of_nat_add of_nat_numeral)
  ultimately show "CreateCodePointFromUtf16SurrogatePair 2 c d = of_nat n"
    by (simp only: CreateCodePointFromUtf16SurrogatePair_def Let_def if_True simp_thms mask_eq_decr_exp push_bit_of_1)
qed


lemma WideStringToUtf8_loop_utf32:
  assumes "\<forall>n\<in>set cps. unicode_scalar n"
  shows "WideStringToUtf8_loop 4 (map of_nat cps) = concat (map (\<lambda>n. CodePointToUtf8 (of_nat n)) cps)"
  using assms
proof (induction cps)
  case (Cons n cps)
  then show ?case by (simp add: WideStringToUtf8_loop_single not_pair scalar_nonzero)
qed simp

lemma WideStringToUtf8_loop_utf16:
  assumes "\<forall>n\<in>set cps. unicode_scalar n"
  shows "WideStringToUtf8_loop 2 (concat (map utf16 cps)) = concat (map (\<lambda>n. CodePointToUtf8 (of_nat n)) cps)"
  using assms
proof (induction cps)
  case (Cons n cps)
  have n: "0 < n" "n < 0x110000" "n < 0xD800 \<or> 0xE000 \<le> n" using Cons.prems by (auto simp: unicode_scalar_def)
  show ?case
  proof (cases "n < 0x10000")
    case True
    have "(of_nat n :: u32) \<noteq> 0" using Cons.prems by (simp add: scalar_nonzero)
    moreover have "\<not> IsUtf16SurrogatePair 2 (of_nat n) d" for d using n True by (intro not_pair) auto
    ultimately show ?thesis using Cons True by (simp add: WideStringToUtf8_loop_single utf16_def)
  next
    case False
    then obtain c d where u: "utf16 n = [c, d]" by (simp add: utf16_def)
    then show ?thesis using Cons surrogates [OF _ n(2) u] False by simp
  qed
qed simp

lemma decode_code_points:
  assumes "\<forall>n\<in>set cps. unicode_scalar n"
  shows "utf8_decode (map of_char (concat (map (\<lambda>n. CodePointToUtf8 (of_nat n)) cps))) = Some cps \<and>
    NUL \<notin> set (concat (map (\<lambda>n. CodePointToUtf8 (of_nat n)) cps))"
  using assms
proof (induction cps)
  case (Cons n cps)
  have n: "unat (of_nat n :: u32) = n" "n < 0x200000" using Cons.prems scalar_unat [of n] by (auto simp: unicode_scalar_def)
  then have "(of_nat n :: u32) \<noteq> 0" "(of_nat n :: u32) \<le> kMaxCodePoint4"
    using Cons.prems scalar_nonzero [of n] by (simp_all add: kMaxCodePoint_values word_le_nat_alt)
  from CodePointToUtf8_utf8 [OF this] show ?case using Cons n by (simp add: utf8_decode_utf8 del: utf8.simps utf8_decode.simps)
qed simp

lemma utf16_nonzero: "unicode_scalar n \<Longrightarrow> 0 \<notin> set (utf16 n)"
  using surrogates(3,4) [of n] scalar_nonzero [of n] by (cases "n < 0x10000") (auto simp: utf16_def unicode_scalar_def)

section \<open>XML\<close>

lemma unat_char_byte: "unat (char_byte c) = of_char c"
proof -
  have "(of_char c :: nat) < 256" by (rule nat_of_char_less_256)
  moreover have "char_byte c = of_nat (of_char c)" by (simp only: char_byte_def of_nat_of_char)
  ultimately show ?thesis by (simp add: unat_of_nat)
qed

lemma schar_eq: "schar c = k \<longleftrightarrow> c = byte_char (word_of_int k)" if "-128 \<le> k" "k < 128"
proof -
  have "sint (word_of_int k :: u8) = k" using that by (subst signed_of_int) (simp add: signed_take_bit_int_eq_self)
  then show ?thesis unfolding schar_def by (metis byte_char_byte char_byte_char signed_word_eqI)
qed

lemma whitespace_iff: "IsNormalizableWhitespace c \<longleftrightarrow> c \<in> {CHR 0x09, CHR 0x0A, CHR 0x0D}"
proof -
  have "byte_char 9 = CHR 0x09" "byte_char 10 = CHR 0x0A" "byte_char 13 = CHR 0x0D" by code_simp+
  then show ?thesis by (simp add: IsNormalizableWhitespace_def schar_eq)
qed

lemma format_whitespace: "FormatByte (char_byte (CHR 0x09)) = ''09''" "FormatByte (char_byte NL) = ''0A''"
  "FormatByte (char_byte (CHR 0x0D)) = ''0D''"
  by (simp_all add: char_byte_def FormatByte_def pad2_def show_base.simps [of 16 9] show_base.simps [of 16 10] show_base.simps [of 16 13] upper_digit_def)


lemma read_reference_simps [simp]:
  "read_reference (CHR ''&'' # CHR ''l'' # CHR ''t'' # CHR '';'' # t) = Some (''&lt;'', CHR ''<'')"
  "read_reference (CHR ''&'' # CHR ''g'' # CHR ''t'' # CHR '';'' # t) = Some (''&gt;'', CHR ''>'')"
  "read_reference (CHR ''&'' # CHR ''a'' # CHR ''m'' # CHR ''p'' # CHR '';'' # t) = Some (''&amp;'', CHR ''&'')"
  "read_reference (CHR ''&'' # CHR ''a'' # CHR ''p'' # CHR ''o'' # CHR ''s'' # CHR '';'' # t) = Some (''&apos;'', CHR 0x27)"
  "read_reference (CHR ''&'' # CHR ''q'' # CHR ''u'' # CHR ''o'' # CHR ''t'' # CHR '';'' # t) = Some (''&quot;'', CHR 0x22)"
  "read_reference (CHR ''&'' # CHR ''#'' # CHR ''x'' # CHR ''0'' # CHR ''9'' # CHR '';'' # t) = Some (''&#x09;'', CHR 0x09)"
  "read_reference (CHR ''&'' # CHR ''#'' # CHR ''x'' # CHR ''0'' # CHR ''A'' # CHR '';'' # t) = Some (''&#x0A;'', CHR 0x0A)"
  "read_reference (CHR ''&'' # CHR ''#'' # CHR ''x'' # CHR ''0'' # CHR ''D'' # CHR '';'' # t) = Some (''&#x0D;'', CHR 0x0D)"
  by (simp_all add: read_reference_def xml_references_def)

lemma special_valid: "IsValidXmlCharacter (CHR ''<'')" "IsValidXmlCharacter (CHR ''>'')" "IsValidXmlCharacter (CHR ''&'')"
    "IsValidXmlCharacter (CHR 0x27)" "IsValidXmlCharacter (CHR 0x22)"
    by (simp_all add: IsValidXmlCharacter_def schar_def char_byte_def)

lemma read_attribute_special:
  assumes "ch \<in> {CHR ''<'', CHR ''>'', CHR ''&'', CHR 0x27, CHR 0x22}"
  shows "read_attribute (EscapeXml_char True ch @ t) = map_option (Cons ch) (read_attribute t)"
  using assms by (elim insertE emptyE) (simp_all add: EscapeXml_char_def)

lemma read_attribute_whitespace:
  assumes "ch \<in> {CHR 0x09, CHR 0x0A, CHR 0x0D}"
  shows "read_attribute (EscapeXml_char True ch @ t) = map_option (Cons ch) (read_attribute t)"
  using assms by (elim insertE emptyE) (simp_all add: EscapeXml_char_def whitespace_iff IsValidXmlCharacter_def format_whitespace)

lemma read_attribute_char:
  "read_attribute (EscapeXml_char True ch @ t) =
     (if IsValidXmlCharacter ch then map_option (Cons ch) (read_attribute t) else read_attribute t)"
proof -
  consider "ch \<in> {CHR ''<'', CHR ''>'', CHR ''&'', CHR 0x27, CHR 0x22}" | "ch \<in> {CHR 0x09, CHR 0x0A, CHR 0x0D}"
    | "ch \<notin> {CHR ''<'', CHR ''>'', CHR ''&'', CHR 0x27, CHR 0x22}" "ch \<notin> {CHR 0x09, CHR 0x0A, CHR 0x0D}" by blast
  then show ?thesis
  proof cases
    case 1
    then show ?thesis using special_valid read_attribute_special [OF 1] by auto
  next
    case 2
    then show ?thesis using read_attribute_whitespace [OF 2] by (simp add: IsValidXmlCharacter_def whitespace_iff)
  next
    case 3
    then show ?thesis by (simp add: EscapeXml_char_def whitespace_iff)
  qed
qed

lemma EscapeXml_char_no_NUL: "NUL \<notin> set (EscapeXml_char is_attribute ch)"
proof -
  have "\<not> IsValidXmlCharacter NUL" by (simp add: IsValidXmlCharacter_def whitespace_iff schar_def char_byte_def)
  then show ?thesis by (auto simp: EscapeXml_char_def whitespace_iff format_whitespace)
qed

lemma split_cdata_end_None:
  "split_cdata_end s = None \<Longrightarrow> split_cdata_end (s @ '']]>'' @ t) = Some (s, t)"
proof (induction s)
  case (Cons c s)
  have "take 3 (c # s @ '']]>'' @ t) \<noteq> '']]>''"
    using Cons.prems by (cases s; cases "tl s") (auto split: if_splits)
  then show ?case using Cons by (auto split: if_splits)
qed simp

lemma split_cdata_end_Some:
  "split_cdata_end s = Some (a, b) \<Longrightarrow> s = a @ '']]>'' @ b \<and> split_cdata_end a = None"
proof (induction s arbitrary: a)
  case (Cons c s)
  show ?case
  proof (cases "take 3 (c # s) = '']]>''")
    case True
    then show ?thesis using Cons.prems append_take_drop_id [of 3 "c # s"] by auto
  next
    case False
    then obtain a' where a: "a = c # a'" "split_cdata_end s = Some (a', b)" using Cons.prems by auto
    from Cons.IH [OF a(2)] have s: "s = a' @ '']]>'' @ b" "split_cdata_end a' = None" by auto
    have "take 3 (c # a') \<noteq> '']]>''"
      using False s(1) by (cases a'; cases "tl a'") auto
    then show ?thesis using s a by simp
  qed
qed simp

lemma read_content_section:
  "read_content (''<![CDATA['' @ OutputXmlCDataSection_loop segment @ '']]>'' @ t) = map_option ((@) segment) (read_content t)"
proof (induction segment rule: OutputXmlCDataSection_loop.induct)
  case (1 segment)
  show ?case
  proof (cases "split_cdata_end segment")
    case None
    then show ?thesis using split_cdata_end_None [OF None, of t] by (simp add: OutputXmlCDataSection_loop.simps [of segment])
  next
    case (Some p)
    obtain a b where p: "p = (a, b)" by (cases p)
    note s = split_cdata_end_Some [OF Some [unfolded p]]
    let ?r = "'']]&gt;<![CDATA['' @ OutputXmlCDataSection_loop b @ '']]>'' @ t"
    have l: "OutputXmlCDataSection_loop segment @ '']]>'' @ t = a @ '']]>'' @ ?r"
      by (simp add: OutputXmlCDataSection_loop.simps [of segment] Some p)
    have "read_content (''<![CDATA['' @ a @ '']]>'' @ ?r) = map_option ((@) a) (read_content ?r)"
      using split_cdata_end_None [OF s [THEN conjunct2], of ?r] by simp
    moreover have "read_content ?r = map_option ((@) '']]>'') (map_option ((@) b) (read_content t))"
      using 1 [OF Some p [symmetric]] by (simp add: option.map_comp comp_def)
    ultimately show ?thesis
      by (simp only: l option.map_comp) (simp add: s [THEN conjunct1] comp_def)
  qed
qed

lemma read_EscapeXml: "read_attribute (EscapeXmlAttribute s) = Some (RemoveInvalidXmlCharacters s)"
proof -
  have "read_attribute (concat (map (EscapeXml_char True) s)) = Some (RemoveInvalidXmlCharacters s)"
    by (induction s) (simp_all add: RemoveInvalidXmlCharacters_def read_attribute_char)
  then show ?thesis using EscapeXml_char_no_NUL by (simp add: EscapeXmlAttribute_def EscapeXml_def StringStreamToString_id)
qed

section \<open>Properties\<close>




text \<open>
  The comments on \<open>CodePointToUtf8\<close> promise the text \<open>(Invalid Unicode 0x...)\<close> for everything
  above \<open>U+10FFFF\<close>; the code encodes numbers up to \<open>0x1FFFFF\<close>.
\<close>

lemma beyond_unicode_encoded: "map of_char (CodePointToUtf8 0x110000) = utf8 0x110000"
  using CodePointToUtf8_utf8(1) [of "0x110000"] by (simp add: kMaxCodePoint_values)

text \<open>
  \<open>char\<close> is signed, so every byte of a multi-byte character counts as invalid: text that is
  not ASCII disappears from the XML report, whose header announces UTF-8.
\<close>

lemma non_ascii_removed:
  assumes "128 \<le> (of_char c :: nat)"
  shows "EscapeXml [c] is_attribute = []" "RemoveInvalidXmlCharacters [c] = []"
proof -
  have k: "-128 \<le> schar c" "schar c < 128" using sint_ge [of "char_byte c"] sint_lt [of "char_byte c"] by (simp_all add: schar_def)
  have "schar c < 0"
  proof (rule ccontr)
    assume "\<not> schar c < 0"
    then have "uint (word_of_int (schar c) :: u8) = schar c" using k by (subst uint_word_of_int) simp
    moreover have "char_byte c = word_of_int (schar c)" by (simp add: schar_def)
    ultimately have "int (unat (char_byte c)) < 128" using k by simp
    then show False using assms unat_char_byte [of c] by simp
  qed
  moreover from this have "c \<notin> {CHR ''<'', CHR ''>'', CHR ''&'', CHR 0x27, CHR 0x22}"
    by (auto simp: schar_def char_byte_def)
  ultimately show "EscapeXml [c] is_attribute = []" "RemoveInvalidXmlCharacters [c] = []"
    by (simp_all add: EscapeXml_def EscapeXml_char_def RemoveInvalidXmlCharacters_def IsValidXmlCharacter_def IsNormalizableWhitespace_def)
qed

end
