(* ===== verification/Gtest_Regex.thy ===== *)
theory Gtest_Regex
  imports Gtest_Text
begin

text \<open>
  The simple regular expressions of the test framework (\<open>gtest-1.7.0/src/gtest-port.cc\<close>, the
  variant for platforms without POSIX expressions): the validator, the recursive matcher
  and the class \<open>RE\<close>.  A pattern and a subject are lists of characters; reading the
  terminating NUL is reading past the end of the list.  The matcher returns \<open>None\<close> where the
  source would read behind the terminating NUL.
\<close>

section \<open>Characters\<close>

definition IsInSet :: "char \<Rightarrow> string \<Rightarrow> bool" where
  "IsInSet ch str \<longleftrightarrow> ch \<noteq> NUL \<and> ch \<in> set str"

definition in_range :: "char \<Rightarrow> char \<Rightarrow> char \<Rightarrow> bool" where
  "in_range lo ch hi \<longleftrightarrow> schar lo \<le> schar ch \<and> schar ch \<le> schar hi"

definition IsAsciiDigit :: "char \<Rightarrow> bool" where
  "IsAsciiDigit ch = in_range (CHR ''0'') ch (CHR ''9'')"

definition IsAsciiPunct :: "char \<Rightarrow> bool" where
  "IsAsciiPunct ch = IsInSet ch (''^-!'' @ [CHR 0x22] @ ''#$%&'' @ [CHR 0x27] @ ''()*+,./:;<=>?@['' @ [CHR 0x5C] @ '']_'' @ [CHR 0x60] @ ''{|}~'')"

definition IsRepeat :: "char \<Rightarrow> bool" where
  "IsRepeat ch = IsInSet ch ''?*+''"

definition IsAsciiWhiteSpace :: "char \<Rightarrow> bool" where
  "IsAsciiWhiteSpace ch = IsInSet ch [CHR '' '', CHR 0x0C, CHR 0x0A, CHR 0x0D, CHR 0x09, CHR 0x0B]"

definition IsAsciiWordChar :: "char \<Rightarrow> bool" where
  "IsAsciiWordChar ch \<longleftrightarrow>
     in_range (CHR ''a'') ch (CHR ''z'') \<or> in_range (CHR ''A'') ch (CHR ''Z'') \<or>
     in_range (CHR ''0'') ch (CHR ''9'') \<or> ch = CHR ''_''"

definition IsValidEscape :: "char \<Rightarrow> bool" where
  "IsValidEscape c \<longleftrightarrow> IsAsciiPunct c \<or> IsInSet c ''dDfnrsStvwW''"

definition AtomMatchesChar :: "bool \<Rightarrow> char \<Rightarrow> char \<Rightarrow> bool" where
  "AtomMatchesChar escaped pattern_char ch =
     (if escaped then
        (if pattern_char = CHR ''d'' then IsAsciiDigit ch
         else if pattern_char = CHR ''D'' then \<not> IsAsciiDigit ch
         else if pattern_char = CHR ''f'' then ch = CHR 0x0C
         else if pattern_char = CHR ''n'' then ch = CHR 0x0A
         else if pattern_char = CHR ''r'' then ch = CHR 0x0D
         else if pattern_char = CHR ''s'' then IsAsciiWhiteSpace ch
         else if pattern_char = CHR ''S'' then \<not> IsAsciiWhiteSpace ch
         else if pattern_char = CHR ''t'' then ch = CHR 0x09
         else if pattern_char = CHR ''v'' then ch = CHR 0x0B
         else if pattern_char = CHR ''w'' then IsAsciiWordChar ch
         else if pattern_char = CHR ''W'' then \<not> IsAsciiWordChar ch
         else IsAsciiPunct pattern_char \<and> pattern_char = ch)
      else pattern_char = CHR ''.'' \<and> ch \<noteq> NL \<or> pattern_char = ch)"

section \<open>Validation\<close>

text \<open>\<open>ADD_FAILURE\<close> records a failure; the list holds the recorded messages.\<close>

definition quoted :: "string \<Rightarrow> string" where
  "quoted s = CHR 0x27 # s @ [CHR 0x27]"

definition FormatRegexSyntaxError :: "string \<Rightarrow> nat \<Rightarrow> string" where
  "FormatRegexSyntaxError regex index =
     ''Syntax error at index '' @ show_int (int index) @ '' in simple regular expression '' @
     [CHR 0x22] @ regex @ [CHR 0x22] @ '': ''"

fun ValidateRegex_loop :: "string \<Rightarrow> nat \<Rightarrow> bool \<Rightarrow> bool \<Rightarrow> string list \<Rightarrow> string \<Rightarrow> string list \<times> bool" where
  "ValidateRegex_loop regex i prev_repeatable is_valid failures [] = (failures, is_valid)"
| "ValidateRegex_loop regex i prev_repeatable is_valid failures (ch # rest) =
     (if ch = CHR 0x5C then
        (case rest of
           [] \<Rightarrow> (failures @ [FormatRegexSyntaxError regex i @ quoted [CHR 0x5C] @ '' cannot appear at the end.''], False)
         | c # rest \<Rightarrow>
             if \<not> IsValidEscape c
             then ValidateRegex_loop regex (i + 2) True False
                    (failures @ [FormatRegexSyntaxError regex i @ ''invalid escape sequence '' @ [CHR 0x22, CHR 0x5C, c, CHR 0x22] @ ''.'']) rest
             else ValidateRegex_loop regex (i + 2) True is_valid failures rest)
      else
        (let bad =
           (if ch = CHR ''^'' \<and> i > 0 then Some (quoted ''^'' @ '' can only appear at the beginning.'')
            else if ch = CHR ''$'' \<and> rest \<noteq> [] then Some (quoted ''$'' @ '' can only appear at the end.'')
            else if IsInSet ch ''()[]{}|'' then Some (quoted [ch] @ '' is unsupported.'')
            else if IsRepeat ch \<and> \<not> prev_repeatable then Some (quoted [ch] @ '' can only follow a repeatable token.'')
            else None)
         in ValidateRegex_loop regex (i + 1) (\<not> IsInSet ch ''^$?*+'') (is_valid \<and> bad = None)
              (case bad of None \<Rightarrow> failures | Some m \<Rightarrow> failures @ [FormatRegexSyntaxError regex i @ m]) rest))"

definition ValidateRegex :: "string option \<Rightarrow> string list \<times> bool" where
  "ValidateRegex regex =
     (case regex of
        None \<Rightarrow> ([''NULL is not a valid simple regular expression.''], False)
      | Some regex \<Rightarrow> ValidateRegex_loop regex 0 False True [] regex)"

section \<open>Matching\<close>

text \<open>
  \<open>MatchRepetitionAndRegexAtHead\<close> gets the counter of its loop and the subject from the
  counter's position on.
\<close>

function MatchRegexAtHead :: "string \<Rightarrow> string \<Rightarrow> bool option"
  and MatchRepetitionAndRegexAtHead :: "bool \<Rightarrow> char \<Rightarrow> char \<Rightarrow> string \<Rightarrow> nat \<Rightarrow> string \<Rightarrow> bool option" where
  "MatchRegexAtHead [] str = Some True"
| "MatchRegexAtHead (c # regex) str =
     (if c = CHR ''$'' then Some (str = [])
      else
        (let escaped = (c = CHR 0x5C) in
         case if escaped then regex else c # regex of
           [] \<Rightarrow> None
         | a # regex \<Rightarrow>
             if regex \<noteq> [] \<and> IsRepeat (hd regex)
             then MatchRepetitionAndRegexAtHead escaped a (hd regex) (tl regex) 0 str
             else if str \<noteq> [] \<and> AtomMatchesChar escaped a (hd str)
             then MatchRegexAtHead regex (tl str)
             else Some False))"
| "MatchRepetitionAndRegexAtHead escaped c repeat regex i str =
     (let min_count = (if repeat = CHR ''+'' then 1 else 0);
          max_count = (if repeat = CHR ''?'' then 1 else 2 ^ 64 - 2)
      in if i > max_count then Some False
         else
           (case if i \<ge> min_count then MatchRegexAtHead regex str else Some False of
              None \<Rightarrow> None
            | Some True \<Rightarrow> Some True
            | Some False \<Rightarrow>
                if str = [] \<or> \<not> AtomMatchesChar escaped c (hd str) then Some False
                else MatchRepetitionAndRegexAtHead escaped c repeat regex (i + 1) (tl str)))"
  by pat_completeness auto
termination
  by (relation "inv_image ({(x, y). x < y} <*lex*> {(x, y). x < y} <*lex*> {(x, y). x < y})
        (\<lambda>s. case s of Inl (regex, str) \<Rightarrow> (length regex, length str, 0 :: nat)
                     | Inr (_, _, _, regex, _, str) \<Rightarrow> (length regex, length str, 1))")
    (auto simp: wf_less intro!: wf_inv_image wf_lex_prod split: if_splits)

declare MatchRegexAtHead.simps(2) [simp del] MatchRepetitionAndRegexAtHead.simps [simp del]

fun MatchRegexAnywhere_loop :: "string \<Rightarrow> string \<Rightarrow> bool option" where
  "MatchRegexAnywhere_loop regex str =
     (case MatchRegexAtHead regex str of
        None \<Rightarrow> None
      | Some True \<Rightarrow> Some True
      | Some False \<Rightarrow> (case str of [] \<Rightarrow> Some False | _ # str \<Rightarrow> MatchRegexAnywhere_loop regex str))"

definition MatchRegexAnywhere :: "string option \<Rightarrow> string option \<Rightarrow> bool option" where
  "MatchRegexAnywhere regex str =
     (case regex of None \<Rightarrow> Some False
      | Some regex \<Rightarrow>
          (case str of None \<Rightarrow> Some False
           | Some str \<Rightarrow>
               if regex \<noteq> [] \<and> hd regex = CHR ''^'' then MatchRegexAtHead (tl regex) str
               else MatchRegexAnywhere_loop regex str))"

section \<open>The class RE\<close>

record RE =
  pattern :: "string option"
  full_pattern :: "string option"
  is_valid_re :: bool

definition RE_Init :: "string option \<Rightarrow> string list \<times> RE" where
  "RE_Init regex =
     (let (failures, is_valid) = ValidateRegex regex
      in case regex of
           Some r \<Rightarrow>
             if is_valid then
               (let buffer = (if r \<noteq> [] \<and> hd r = CHR ''^'' then [] else ''^'') @ r @
                             (if r = [] \<or> last r \<noteq> CHR ''$'' then ''$'' else [])
                in (failures, \<lparr>pattern = Some r, full_pattern = Some buffer, is_valid_re = True\<rparr>))
             else (failures, \<lparr>pattern = Some r, full_pattern = None, is_valid_re = False\<rparr>)
         | None \<Rightarrow> (failures, \<lparr>pattern = None, full_pattern = None, is_valid_re = False\<rparr>))"

definition FullMatch :: "string \<Rightarrow> RE \<Rightarrow> bool option" where
  "FullMatch str re = (if is_valid_re re then MatchRegexAnywhere (full_pattern re) (Some str) else Some False)"

definition PartialMatch :: "string \<Rightarrow> RE \<Rightarrow> bool option" where
  "PartialMatch str re = (if is_valid_re re then MatchRegexAnywhere (pattern re) (Some str) else Some False)"

section \<open>Syntax and meaning\<close>

text \<open>
  The abstract syntax: anchors at both ends and between them atoms with an optional
  repetition.  The language of a list of such pieces is defined by concatenation.
\<close>

type_synonym piece = "(bool \<times> char) \<times> char option"

definition wf_atom :: "bool \<times> char \<Rightarrow> bool" where
  "wf_atom a = (case a of (escaped, c) \<Rightarrow>
     if escaped then IsValidEscape c else c \<noteq> NUL \<and> c \<notin> set (CHR 0x5C # ''^$()[]{}|?*+''))"

definition wf_piece :: "piece \<Rightarrow> bool" where
  "wf_piece p \<longleftrightarrow> wf_atom (fst p) \<and> (case snd p of None \<Rightarrow> True | Some r \<Rightarrow> r \<in> set ''?*+'')"

definition print_piece :: "piece \<Rightarrow> string" where
  "print_piece p = (case p of ((escaped, c), r) \<Rightarrow>
     (if escaped then [CHR 0x5C, c] else [c]) @ (case r of None \<Rightarrow> [] | Some r \<Rightarrow> [r]))"

definition print_regex :: "bool \<Rightarrow> piece list \<Rightarrow> bool \<Rightarrow> string" where
  "print_regex anchored ps to_end =
     (if anchored then ''^'' else []) @ concat (map print_piece ps) @ (if to_end then ''$'' else [])"

definition piece_lang :: "piece \<Rightarrow> string set" where
  "piece_lang p =
     (let S = {ch. AtomMatchesChar (fst (fst p)) (snd (fst p)) ch} in
      case snd p of
        None \<Rightarrow> {[ch] | ch. ch \<in> S}
      | Some r \<Rightarrow>
          {w. set w \<subseteq> S \<and> (r = CHR ''+'' \<longrightarrow> w \<noteq> []) \<and> (r = CHR ''?'' \<longrightarrow> length w \<le> 1)})"

fun regex_lang :: "piece list \<Rightarrow> string set" where
  "regex_lang [] = {[]}"
| "regex_lang (p # ps) = {u @ v | u v. u \<in> piece_lang p \<and> v \<in> regex_lang ps}"


definition regex_tail :: "piece list \<Rightarrow> bool \<Rightarrow> string" where
  "regex_tail ps to_end = concat (map print_piece ps) @ (if to_end then ''$'' else [])"

section \<open>The matcher\<close>

lemma regex_tail_simps:
  "regex_tail [] to_end = (if to_end then ''$'' else [])"
  "regex_tail (p # ps) to_end = print_piece p @ regex_tail ps to_end"
  by (simp_all add: regex_tail_def)

lemma IsRepeat_iff: "IsRepeat r \<longleftrightarrow> r \<in> set ''?*+''"
  by (auto simp: IsRepeat_def IsInSet_def)

lemma tail_not_repeat:
  assumes "\<forall>p\<in>set ps. wf_piece p" "regex_tail ps to_end = c # cs"
  shows "\<not> IsRepeat c"
  using assms
  by (cases ps) (auto simp: regex_tail_simps IsRepeat_iff wf_piece_def wf_atom_def print_piece_def split: if_splits prod.splits)

definition min_count :: "char \<Rightarrow> nat" where
  "min_count repeat = (if repeat = CHR ''+'' then 1 else 0)"

definition max_count :: "char \<Rightarrow> nat" where
  "max_count repeat = (if repeat = CHR ''?'' then 1 else 2 ^ 64 - 2)"

lemma MatchRepetition_step:
  "MatchRepetitionAndRegexAtHead escaped c repeat regex i str =
     (if i > max_count repeat then Some False
      else
        (case if i \<ge> min_count repeat then MatchRegexAtHead regex str else Some False of
           None \<Rightarrow> None
         | Some True \<Rightarrow> Some True
         | Some False \<Rightarrow>
             if str = [] \<or> \<not> AtomMatchesChar escaped c (hd str) then Some False
             else MatchRepetitionAndRegexAtHead escaped c repeat regex (i + 1) (tl str)))"
  by (subst MatchRepetitionAndRegexAtHead.simps) (simp only: Let_def min_count_def max_count_def)

definition repeats :: "bool \<Rightarrow> char \<Rightarrow> char \<Rightarrow> nat \<Rightarrow> string \<Rightarrow> bool" where
  "repeats escaped c repeat i u \<longleftrightarrow> (\<forall>ch\<in>set u. AtomMatchesChar escaped c ch) \<and>
     min_count repeat \<le> i + length u \<and> i + length u \<le> max_count repeat"

lemma MatchRepetition_correct:
  assumes "\<And>s. length s \<le> length str \<Longrightarrow> MatchRegexAtHead regex s = Some (Q s)"
  shows "MatchRepetitionAndRegexAtHead escaped c repeat regex i str =
     Some (\<exists>u v. str = u @ v \<and> repeats escaped c repeat i u \<and> Q v)"
  using assms
proof (induction str arbitrary: i)
  case Nil
  then show ?case by (subst MatchRepetition_step) (auto simp: repeats_def split: bool.split)
next
  case (Cons ch str)
  let ?r = "repeats escaped c repeat"
  have IH: "MatchRepetitionAndRegexAtHead escaped c repeat regex (Suc i) str = Some (\<exists>u v. str = u @ v \<and> ?r (Suc i) u \<and> Q v)"
    using Cons.IH [of "Suc i"] Cons.prems by simp
  have m: "MatchRegexAtHead regex (ch # str) = Some (Q (ch # str))" using Cons.prems by simp
  have step: "?r i (ch # u) \<longleftrightarrow> AtomMatchesChar escaped c ch \<and> ?r (Suc i) u" for u by (auto simp: repeats_def)
  have split: "(\<exists>u v. ch # str = u @ v \<and> ?r i u \<and> Q v) \<longleftrightarrow>
      ?r i [] \<and> Q (ch # str) \<or> AtomMatchesChar escaped c ch \<and> (\<exists>u v. str = u @ v \<and> ?r (Suc i) u \<and> Q v)"
    unfolding Cons_eq_append_conv using step by (auto 4 4)
  have small: "?r i [] \<longleftrightarrow> min_count repeat \<le> i \<and> i \<le> max_count repeat" by (simp add: repeats_def)
  have large: "max_count repeat < i \<Longrightarrow> \<not> ?r (Suc i) u" for u by (simp add: repeats_def)
  show ?case
    unfolding split small
    by (subst MatchRepetition_step) (use large in \<open>auto simp: m IH split: bool.split\<close>)
qed


lemma piece_lang_repeat:
  assumes "length u < 2 ^ 64 - 1" "r \<in> set ''?*+''"
  shows "repeats escaped c r 0 u \<longleftrightarrow> u \<in> piece_lang ((escaped, c), Some r)"
  using assms by (auto simp: repeats_def min_count_def max_count_def piece_lang_def Suc_le_eq)

lemma wf_atom_plain: "wf_atom (False, c) \<Longrightarrow> c \<noteq> CHR ''$'' \<and> c \<noteq> CHR 0x5C"
  by (auto simp: wf_atom_def)

lemma MatchRegexAtHead_repeat:
  assumes "wf_atom (escaped, c)" "IsRepeat r"
  shows "MatchRegexAtHead (print_piece ((escaped, c), Some r) @ regex) str = MatchRepetitionAndRegexAtHead escaped c r regex 0 str"
  using assms wf_atom_plain [of c]
  by (cases escaped) (simp_all add: print_piece_def MatchRegexAtHead.simps(2) [of "CHR 0x5C"] MatchRegexAtHead.simps(2) [of c] Let_def)

lemma MatchRegexAtHead_single:
  assumes "wf_atom (escaped, c)" "\<not> (regex \<noteq> [] \<and> IsRepeat (hd regex))"
  shows "MatchRegexAtHead (print_piece ((escaped, c), None) @ regex) str =
    (if str \<noteq> [] \<and> AtomMatchesChar escaped c (hd str) then MatchRegexAtHead regex (tl str) else Some False)"
  using assms wf_atom_plain [of c]
  by (cases escaped) (auto simp: print_piece_def MatchRegexAtHead.simps(2) [of "CHR 0x5C" "c # regex"] MatchRegexAtHead.simps(2) [of c regex] Let_def)

lemma piece_lang_single:
  "(\<exists>x y. str = x @ y \<and> x \<in> piece_lang ((escaped, c), None) \<and> Q y) \<longleftrightarrow>
     str \<noteq> [] \<and> AtomMatchesChar escaped c (hd str) \<and> Q (tl str)"
proof (cases str)
  case (Cons a s)
  have "\<exists>x y. str = x @ y \<and> x \<in> piece_lang ((escaped, c), None) \<and> Q y" if "AtomMatchesChar escaped c a" "Q s"
    using that by (intro exI [of _ "[a]"] exI [of _ s]) (simp add: Cons piece_lang_def)
  then show ?thesis by (auto simp: Cons piece_lang_def)
qed (simp add: piece_lang_def)

lemma piece_lang_repeats:
  assumes "length str < 2 ^ 64 - 1" "r \<in> set ''?*+''"
  shows "(\<exists>u v. str = u @ v \<and> repeats escaped c r 0 u \<and> Q v) \<longleftrightarrow> (\<exists>x y. str = x @ y \<and> x \<in> piece_lang ((escaped, c), Some r) \<and> Q y)"
proof -
  have "repeats escaped c r 0 u \<longleftrightarrow> u \<in> piece_lang ((escaped, c), Some r)" if "str = u @ v" for u v
    using assms that by (intro piece_lang_repeat) simp_all
  then show ?thesis by blast
qed

lemma MatchRegexAtHead_tail:
  assumes "\<forall>p\<in>set ps. wf_piece p" "length str < 2 ^ 64 - 1"
  shows "MatchRegexAtHead (regex_tail ps to_end) str =
    Some (\<exists>u v. str = u @ v \<and> u \<in> regex_lang ps \<and> (to_end \<longrightarrow> v = []))"
  using assms
proof (induction ps arbitrary: str)
  case Nil
  then show ?case by (auto simp: regex_tail_simps MatchRegexAtHead.simps(2))
next
  case (Cons p ps)
  obtain escaped c r where p: "p = ((escaped, c), r)" by (metis prod.exhaust)
  have wf: "wf_atom (escaped, c)" "wf_piece p" "\<forall>p\<in>set ps. wf_piece p" using Cons.prems(1) p by (auto simp: wf_piece_def)
  let ?Q = "\<lambda>s. \<exists>u v. s = u @ v \<and> u \<in> regex_lang ps \<and> (to_end \<longrightarrow> v = [])"
  have IH: "MatchRegexAtHead (regex_tail ps to_end) s = Some (?Q s)" if "length s \<le> length str" for s
    using Cons.IH [OF wf(3), of s] Cons.prems(2) that by simp
  have goal: "(\<exists>u v. str = u @ v \<and> u \<in> regex_lang (p # ps) \<and> (to_end \<longrightarrow> v = [])) \<longleftrightarrow>
      (\<exists>x y. str = x @ y \<and> x \<in> piece_lang p \<and> ?Q y)"
  proof
    assume "\<exists>u v. str = u @ v \<and> u \<in> regex_lang (p # ps) \<and> (to_end \<longrightarrow> v = [])"
    then obtain w v where w: "str = w @ v" "w \<in> regex_lang (p # ps)" "to_end \<longrightarrow> v = []" by blast
    from w(2) obtain x u where "w = x @ u" "x \<in> piece_lang p" "u \<in> regex_lang ps" by auto
    then show "\<exists>x y. str = x @ y \<and> x \<in> piece_lang p \<and> ?Q y" using w(1,3) by (metis append.assoc)
  next
    assume "\<exists>x y. str = x @ y \<and> x \<in> piece_lang p \<and> ?Q y"
    then obtain x u v where "str = (x @ u) @ v" "x \<in> piece_lang p" "u \<in> regex_lang ps" "to_end \<longrightarrow> v = []" by (metis append.assoc)
    moreover from this have "x @ u \<in> regex_lang (p # ps)" by auto
    ultimately show "\<exists>u v. str = u @ v \<and> u \<in> regex_lang (p # ps) \<and> (to_end \<longrightarrow> v = [])" by metis
  qed
  show ?case
  proof (cases r)
    case None
    have "\<not> (regex_tail ps to_end \<noteq> [] \<and> IsRepeat (hd (regex_tail ps to_end)))"
      using tail_not_repeat [OF wf(3), of to_end] by (cases "regex_tail ps to_end") auto
    note head = MatchRegexAtHead_single [OF wf(1) this, of str]
    then show ?thesis
      unfolding goal unfolding p None piece_lang_single using IH [of "tl str"] by (simp only: regex_tail_simps head) simp
  next
    case (Some q)
    have q: "q \<in> set ''?*+''" using wf(2) by (simp add: p Some wf_piece_def)
    show ?thesis
      unfolding goal unfolding p Some piece_lang_repeats [OF Cons.prems(2) q, symmetric] using MatchRegexAtHead_repeat [OF wf(1), of q] q IsRepeat_iff [of q]
      by (simp only: regex_tail_simps MatchRepetition_correct [OF IH])
  qed
qed


section \<open>The validator\<close>

fun valid_from :: "bool \<Rightarrow> bool \<Rightarrow> string \<Rightarrow> bool" where
  "valid_from first prev [] = True"
| "valid_from first prev (ch # rest) =
     (if ch = CHR 0x5C then (case rest of [] \<Rightarrow> False | c # rest \<Rightarrow> IsValidEscape c \<and> valid_from False True rest)
      else \<not> (ch = CHR ''^'' \<and> \<not> first) \<and> \<not> (ch = CHR ''$'' \<and> rest \<noteq> []) \<and> \<not> IsInSet ch ''()[]{}|'' \<and>
        \<not> (IsRepeat ch \<and> \<not> prev) \<and> valid_from False (\<not> IsInSet ch ''^$?*+'') rest)"

lemma ValidateRegex_loop_valid:
  "snd (ValidateRegex_loop regex i prev v fs rest) \<longleftrightarrow> v \<and> valid_from (i = 0) prev rest"
  by (induction regex i prev v fs rest rule: ValidateRegex_loop.induct) (auto simp: Let_def split: list.split)

lemma ValidateRegex_loop_failures:
  "fst (ValidateRegex_loop regex i prev v fs rest) = [] \<longleftrightarrow> fs = [] \<and> valid_from (i = 0) prev rest"
  by (induction regex i prev v fs rest rule: ValidateRegex_loop.induct) (auto simp: Let_def split: list.split option.split)

lemma wf_plain_iff:
  "wf_atom (False, c) \<longleftrightarrow> c \<noteq> NUL \<and> c \<noteq> CHR 0x5C \<and> c \<noteq> CHR ''^'' \<and> c \<noteq> CHR ''$'' \<and> \<not> IsInSet c ''()[]{}|'' \<and> \<not> IsRepeat c"
  by (auto simp: wf_atom_def IsInSet_def IsRepeat_def)

lemma not_repeatable: "IsInSet c ''^$?*+'' \<longleftrightarrow> c = CHR ''^'' \<or> c = CHR ''$'' \<or> IsRepeat c"
  by (auto simp: IsInSet_def IsRepeat_def)

lemma valid_from_piece:
  assumes "wf_piece p" "\<And>prev. valid_from False prev rest"
  shows "valid_from first prev (print_piece p @ rest)"
proof -
  obtain escaped c r where p: "p = ((escaped, c), r)" by (metis prod.exhaust)
  have r: "r = Some q \<Longrightarrow> IsRepeat q \<and> q \<noteq> CHR 0x5C \<and> q \<noteq> CHR ''^'' \<and> q \<noteq> CHR ''$'' \<and> \<not> IsInSet q ''()[]{}|''" for q
    using assms(1) by (auto simp: p wf_piece_def IsRepeat_iff IsInSet_def)
  then have "valid_from False True ((case r of None \<Rightarrow> [] | Some r \<Rightarrow> [r]) @ rest)"
    using assms(2) by (auto split: option.split)
  moreover have "escaped \<Longrightarrow> IsValidEscape c" "\<not> escaped \<Longrightarrow> wf_atom (False, c)"
    using assms(1) by (auto simp: p wf_piece_def wf_atom_def)
  ultimately show ?thesis
    by (cases escaped) (simp_all add: p print_piece_def wf_plain_iff not_repeatable)
qed

lemma valid_from_tail:
  assumes "\<forall>p\<in>set ps. wf_piece p"
  shows "valid_from first prev (regex_tail ps to_end)"
  using assms
proof (induction ps arbitrary: first prev)
  case Nil
  then show ?case by (simp add: regex_tail_simps IsInSet_def IsRepeat_def)
next
  case (Cons p ps)
  then show ?case unfolding regex_tail_simps by (intro valid_from_piece) simp_all
qed

lemma print_piece_simps:
  "print_piece ((True, c), None) = [CHR 0x5C, c]" "print_piece ((True, c), Some r) = [CHR 0x5C, c, r]"
  "print_piece ((False, c), None) = [c]" "print_piece ((False, c), Some r) = [c, r]"
  by (simp_all add: print_piece_def)

lemma parse_piece:
  assumes "wf_atom (escaped, c)" "\<forall>p\<in>set ps. wf_piece p" "r \<noteq> [] \<longrightarrow> prev \<and> (\<exists>q. r = [q] \<and> IsRepeat q)"
  shows "\<exists>ps'. (\<forall>p\<in>set ps'. wf_piece p) \<and> (if escaped then [CHR 0x5C, c] else [c]) @ r @ regex_tail ps to_end = regex_tail ps' to_end"
proof (cases r)
  case Nil
  then show ?thesis using assms
    by (intro exI [of _ "((escaped, c), None) # ps"]) (simp add: wf_piece_def regex_tail_simps print_piece_simps)
next
  case (Cons q qs)
  then show ?thesis using assms
    by (intro exI [of _ "((escaped, c), Some q) # ps"])
      (auto simp: wf_piece_def regex_tail_simps print_piece_simps IsRepeat_iff)
qed

lemma valid_from_parse:
  assumes "valid_from False prev rest" "NUL \<notin> set rest"
  shows "\<exists>r ps to_end. (\<forall>p\<in>set ps. wf_piece p) \<and> (r \<noteq> [] \<longrightarrow> prev \<and> (\<exists>q. r = [q] \<and> IsRepeat q)) \<and> rest = r @ regex_tail ps to_end"
  using assms
proof (induction rest arbitrary: prev rule: length_induct)
  case (1 rest)
  show ?case
  proof (cases rest)
    case Nil
    then show ?thesis by (intro exI [of _ "[]"] exI [of _ False]) (simp add: regex_tail_simps)
  next
    case (Cons ch s)
    have IH: "\<exists>r ps to_end. (\<forall>p\<in>set ps. wf_piece p) \<and> (r \<noteq> [] \<longrightarrow> prev \<and> (\<exists>q. r = [q] \<and> IsRepeat q)) \<and> t = r @ regex_tail ps to_end"
      if "valid_from False prev t" "set t \<subseteq> set s" "length t \<le> length s" for prev t
      using that "1.prems"(2) Cons by (intro "1.IH" [rule_format]) auto
    have u: "valid_from False prev (ch # s)" using "1.prems"(1) Cons by simp
    consider "ch = CHR 0x5C" | "ch = CHR ''$''" | "IsRepeat ch" "ch \<noteq> CHR 0x5C" "ch \<noteq> CHR ''$''"
      | "ch \<noteq> CHR 0x5C" "ch \<noteq> CHR ''$''" "\<not> IsRepeat ch" by blast
    then show ?thesis
    proof cases
      case 1
      then obtain c t where c: "s = c # t" "IsValidEscape c" "valid_from False True t"
        using u by (cases s) simp_all
      then have "set t \<subseteq> set s" "length t \<le> length s" by auto
      from IH [OF c(3) this] obtain r ps e where r: "\<forall>p\<in>set ps. wf_piece p"
        "r \<noteq> [] \<longrightarrow> True \<and> (\<exists>q. r = [q] \<and> IsRepeat q)" "t = r @ regex_tail ps e" by blast
      have "wf_atom (True, c)" using c(2) by (simp add: wf_atom_def)
      from parse_piece [OF this r(1,2)] obtain ps' where
        "\<forall>p\<in>set ps'. wf_piece p" "[CHR 0x5C, c] @ r @ regex_tail ps e = regex_tail ps' e" by auto
      then show ?thesis
        by (intro exI [of _ "[]"] exI [of _ ps'] exI [of _ e]) (simp add: Cons 1 c(1) r(3))
    next
      case 2
      then have "s = []" using u by simp
      then show ?thesis using 2 Cons
        by (intro exI [of _ "[]"] exI [of _ True]) (simp add: regex_tail_simps)
    next
      case 3
      then have v: "prev" "valid_from False False s" using u by (simp_all add: not_repeatable)
      from IH [OF v(2)] obtain ps e where "\<forall>p\<in>set ps. wf_piece p" "s = regex_tail ps e" by (metis append_Nil order_refl)
      then show ?thesis using 3(1) Cons v(1) by (intro exI [of _ "[ch]"] exI [of _ ps] exI [of _ e]) simp
    next
      case 4
      have "ch \<noteq> NUL" using "1.prems"(2) Cons by auto
      then have v: "wf_atom (False, ch)" "valid_from False True s"
        using u 4 by (auto simp: wf_plain_iff not_repeatable)
      from IH [OF v(2)] obtain r ps e where r: "\<forall>p\<in>set ps. wf_piece p"
        "r \<noteq> [] \<longrightarrow> True \<and> (\<exists>q. r = [q] \<and> IsRepeat q)" "s = r @ regex_tail ps e" by blast
      from parse_piece [OF v(1) r(1,2)] obtain ps' where
        "\<forall>p\<in>set ps'. wf_piece p" "[ch] @ r @ regex_tail ps e = regex_tail ps' e" by auto
      then show ?thesis
        by (intro exI [of _ "[]"] exI [of _ ps'] exI [of _ e]) (simp add: Cons r(3))
    qed
  qed
qed

lemma print_regex_tail: "print_regex anchored ps to_end = (if anchored then ''^'' else []) @ regex_tail ps to_end"
  by (simp add: print_regex_def regex_tail_def)

lemma tail_hd_not_anchor:
  assumes "\<forall>p\<in>set ps. wf_piece p" "regex_tail ps to_end = c # cs"
  shows "c \<noteq> CHR ''^''"
  using assms
  by (cases ps) (auto simp: regex_tail_simps wf_piece_def wf_atom_def print_piece_def split: if_splits prod.splits)

lemma valid_from_regex:
  assumes "NUL \<notin> set regex"
  shows "valid_from True False regex \<longleftrightarrow>
    (\<exists>anchored ps to_end. (\<forall>p\<in>set ps. wf_piece p) \<and> regex = print_regex anchored ps to_end)"
proof
  assume v: "valid_from True False regex"
  show "\<exists>anchored ps to_end. (\<forall>p\<in>set ps. wf_piece p) \<and> regex = print_regex anchored ps to_end"
  proof (cases "\<exists>s. regex = CHR ''^'' # s")
    case True
    then obtain s where s: "regex = CHR ''^'' # s" by blast
    then have "valid_from False False s" "NUL \<notin> set s" using v assms by (simp_all add: not_repeatable)
    from valid_from_parse [OF this] obtain ps e where "\<forall>p\<in>set ps. wf_piece p" "s = regex_tail ps e" by (metis append_Nil)
    then show ?thesis by (intro exI [of _ True] exI [of _ ps] exI [of _ e]) (simp add: s print_regex_tail)
  next
    case False
    then have "valid_from False False regex" using v by (cases regex) (auto split: list.splits)
    from valid_from_parse [OF this assms] obtain ps e where "\<forall>p\<in>set ps. wf_piece p" "regex = regex_tail ps e" by (metis append_Nil)
    then show ?thesis by (intro exI [of _ False] exI [of _ ps] exI [of _ e]) (simp add: print_regex_tail)
  qed
next
  assume "\<exists>anchored ps to_end. (\<forall>p\<in>set ps. wf_piece p) \<and> regex = print_regex anchored ps to_end"
  then obtain a ps e where wf: "\<forall>p\<in>set ps. wf_piece p" and r: "regex = print_regex a ps e" by blast
  show "valid_from True False regex"
    using valid_from_tail [OF wf] by (simp add: r print_regex_tail IsInSet_def IsRepeat_def)
qed

section \<open>The class\<close>

lemma MatchRegexAnywhere_loop_correct:
  assumes "\<And>s. length s \<le> length str \<Longrightarrow> MatchRegexAtHead regex s = Some (Q s)"
  shows "MatchRegexAnywhere_loop regex str = Some (\<exists>x y. str = x @ y \<and> Q y)"
  using assms
proof (induction str)
  case Nil
  then show ?case by (simp split: bool.split)
next
  case (Cons c str)
  have "MatchRegexAnywhere_loop regex str = Some (\<exists>x y. str = x @ y \<and> Q y)" using Cons by simp
  moreover have "(\<exists>x y. c # str = x @ y \<and> Q y) \<longleftrightarrow> Q (c # str) \<or> (\<exists>x y. str = x @ y \<and> Q y)"
    unfolding Cons_eq_append_conv by auto
  ultimately show ?case using Cons.prems [of "c # str"] by (subst MatchRegexAnywhere_loop.simps) (simp split: bool.split)
qed

lemma print_regex_last:
  assumes "\<forall>p\<in>set ps. wf_piece p" "ps = [] \<or> last ps \<noteq> ((True, CHR ''$''), None)"
  shows "print_regex a ps e = [] \<or> last (print_regex a ps e) \<noteq> CHR ''$'' \<longleftrightarrow> \<not> e"
proof (cases "ps = []")
  case False
  then obtain qs q where ps: "ps = qs @ [q]" by (metis append_butlast_last_id)
  have "print_piece q \<noteq> [] \<and> last (print_piece q) \<noteq> CHR ''$''"
    using assms by (auto simp: ps wf_piece_def wf_atom_def print_piece_def split: prod.splits option.splits if_splits)
  then show ?thesis by (simp add: print_regex_def ps)
qed (simp add: print_regex_def)

lemma RE_Init_print:
  assumes "\<forall>p\<in>set ps. wf_piece p" "NUL \<notin> set (print_regex a ps e)"
  shows "is_valid_re (snd (RE_Init (Some (print_regex a ps e))))"
    "pattern (snd (RE_Init (Some (print_regex a ps e)))) = Some (print_regex a ps e)"
    "ps = [] \<or> last ps \<noteq> ((True, CHR ''$''), None) \<Longrightarrow>
       full_pattern (snd (RE_Init (Some (print_regex a ps e)))) = Some (print_regex True ps True)"
proof -
  have "snd (ValidateRegex (Some (print_regex a ps e)))"
    using valid_from_regex [OF assms(2)] assms(1) by (auto simp: ValidateRegex_def ValidateRegex_loop_valid)
  then have init: "snd (RE_Init (Some (print_regex a ps e))) =
      \<lparr>pattern = Some (print_regex a ps e),
       full_pattern = Some ((if print_regex a ps e \<noteq> [] \<and> hd (print_regex a ps e) = CHR ''^'' then [] else ''^'') @ print_regex a ps e @
         (if print_regex a ps e = [] \<or> last (print_regex a ps e) \<noteq> CHR ''$'' then ''$'' else [])), is_valid_re = True\<rparr>"
    by (simp add: RE_Init_def split_def Let_def)
  then show "is_valid_re (snd (RE_Init (Some (print_regex a ps e))))"
    "pattern (snd (RE_Init (Some (print_regex a ps e)))) = Some (print_regex a ps e)"
    by simp_all
  assume l: "ps = [] \<or> last ps \<noteq> ((True, CHR ''$''), None)"
  have "print_regex a ps e \<noteq> [] \<and> hd (print_regex a ps e) = CHR ''^'' \<longleftrightarrow> a"
    using tail_hd_not_anchor [OF assms(1), of e] by (cases "regex_tail ps e") (auto simp: print_regex_tail)
  then show "full_pattern (snd (RE_Init (Some (print_regex a ps e)))) = Some (print_regex True ps True)"
    unfolding init print_regex_last [OF assms(1) l] by (simp add: print_regex_def)
qed

lemma wf_piece_no_NUL: "wf_piece p \<Longrightarrow> NUL \<notin> set (print_piece p)"
proof -
  have "\<not> IsValidEscape NUL" by (simp add: IsValidEscape_def IsAsciiPunct_def IsInSet_def)
  then show "wf_piece p \<Longrightarrow> NUL \<notin> set (print_piece p)"
    by (auto simp: print_piece_def wf_piece_def wf_atom_def split: prod.splits option.splits if_splits)
qed

lemma wf_print_no_NUL: "\<forall>p\<in>set ps. wf_piece p \<Longrightarrow> NUL \<notin> set (print_regex a ps e)"
  using wf_piece_no_NUL by (auto simp: print_regex_def)

section \<open>Properties\<close>

text \<open>
  C34: the validator accepts a pattern exactly when it is an optional \<open>^\<close>, a sequence of
  well-formed atoms each with at most one of \<open>?\<close>, \<open>*\<close> and \<open>+\<close>, and an optional \<open>$\<close>; and it
  records a failure exactly when it rejects.
\<close>

theorem ValidateRegex_grammar:
  assumes "NUL \<notin> set regex"
  shows "(snd (ValidateRegex (Some regex)) \<longleftrightarrow>
      (\<exists>anchored ps to_end. (\<forall>p\<in>set ps. wf_piece p) \<and> regex = print_regex anchored ps to_end)) \<and>
    (fst (ValidateRegex (Some regex)) = [] \<longleftrightarrow> snd (ValidateRegex (Some regex)))"
  using valid_from_regex [OF assms]
  by (simp add: ValidateRegex_def ValidateRegex_loop_valid ValidateRegex_loop_failures)

theorem ValidateRegex_grammar_witness:
  "(snd (ValidateRegex (Some ''^a+.$'')) \<longleftrightarrow>
      (\<exists>anchored ps to_end. (\<forall>p\<in>set ps. wf_piece p) \<and> ''^a+.$'' = print_regex anchored ps to_end)) \<and>
    (fst (ValidateRegex (Some ''^a+.$'')) = [] \<longleftrightarrow> snd (ValidateRegex (Some ''^a+.$'')))"
  by (rule ValidateRegex_grammar) simp

text \<open>
  C35: for every valid pattern the matcher never reads out of bounds and decides the
  language of the pattern: \<open>PartialMatch\<close> holds when some substring, at the ends the anchors
  ask for, is in the language, and \<open>FullMatch\<close> when the whole subject is, provided that the
  pattern does not end in an escaped dollar sign.
\<close>

theorem regex_match_correct:
  assumes "\<forall>p\<in>set ps. wf_piece p" "length str < 2 ^ 64 - 1"
    "re = snd (RE_Init (Some (print_regex anchored ps to_end)))"
  shows "PartialMatch str re =
      Some (\<exists>x u y. str = x @ u @ y \<and> u \<in> regex_lang ps \<and> (anchored \<longrightarrow> x = []) \<and> (to_end \<longrightarrow> y = [])) \<and>
    (ps = [] \<or> last ps \<noteq> ((True, CHR ''$''), None) \<longrightarrow> FullMatch str re = Some (str \<in> regex_lang ps))"
proof -
  note init = RE_Init_print [OF assms(1) wf_print_no_NUL [OF assms(1)], of anchored to_end]
  have m: "MatchRegexAtHead (regex_tail ps e) s = Some (\<exists>u v. s = u @ v \<and> u \<in> regex_lang ps \<and> (e \<longrightarrow> v = []))"
    if "length s \<le> length str" for s e
    using MatchRegexAtHead_tail [OF assms(1), of s e] assms(2) that by simp
  have p: "PartialMatch str re = MatchRegexAnywhere (Some (print_regex anchored ps to_end)) (Some str)"
    using init by (simp add: PartialMatch_def assms(3))
  have "PartialMatch str re =
      Some (\<exists>x u y. str = x @ u @ y \<and> u \<in> regex_lang ps \<and> (anchored \<longrightarrow> x = []) \<and> (to_end \<longrightarrow> y = []))"
  proof (cases anchored)
    case True
    then show ?thesis unfolding p by (simp add: MatchRegexAnywhere_def print_regex_tail m)
  next
    case False
    have "\<not> (regex_tail ps to_end \<noteq> [] \<and> hd (regex_tail ps to_end) = CHR ''^'')"
      using tail_hd_not_anchor [OF assms(1), of to_end] by (cases "regex_tail ps to_end") auto
    then have "PartialMatch str re = MatchRegexAnywhere_loop (regex_tail ps to_end) str"
      unfolding p using False by (auto simp: MatchRegexAnywhere_def print_regex_tail)
    then show ?thesis using MatchRegexAnywhere_loop_correct [OF m, of str to_end] False by auto
  qed
  moreover have "ps = [] \<or> last ps \<noteq> ((True, CHR ''$''), None) \<Longrightarrow> FullMatch str re = MatchRegexAtHead (regex_tail ps True) str"
    using init by (simp add: FullMatch_def assms(3) MatchRegexAnywhere_def print_regex_tail)
  ultimately show ?thesis using m [of str True] by simp
qed

theorem regex_match_correct_witness:
  "PartialMatch ''xaab'' (snd (RE_Init (Some (print_regex False [((False, CHR ''a''), Some (CHR ''+''))] False)))) =
      Some (\<exists>x u y. ''xaab'' = x @ u @ y \<and> u \<in> regex_lang [((False, CHR ''a''), Some (CHR ''+''))] \<and> (False \<longrightarrow> x = []) \<and> (False \<longrightarrow> y = []))"
  using regex_match_correct [of "[((False, CHR ''a''), Some (CHR ''+''))]" "''xaab''" _ False False]
  by (simp add: wf_piece_def wf_atom_def)

text \<open>
  A pattern that ends in an escaped dollar sign is taken to be anchored already, so
  \<open>FullMatch\<close> accepts a subject with more text behind the match.
\<close>

lemma full_match_escaped_dollar:
  "FullMatch ''a$b'' (snd (RE_Init (Some [CHR ''a'', CHR 0x5C, CHR ''$'']))) = Some True"
  by code_simp

end
