(* ===== verification/Gtest_Flags.thy ===== *)
theory Gtest_Flags
  imports Gtest_Text
begin

text \<open>
  Flags and environment variables of the test framework (\<open>gtest-port.cc\<close>, \<open>gtest.cc\<close>): the
  integer parser, the variables that give the flags their first values, the parsers for
  one flag, and the pass over the command line that removes the recognised arguments.

  The environment is a map.  A parser that prints a warning and fails returns it as \<open>Inl\<close>;
  a function that ends the program returns \<open>None\<close>.
\<close>

section \<open>Integers\<close>

definition is_space :: "char \<Rightarrow> bool" where
  "is_space c \<longleftrightarrow> c \<in> {CHR '' '', CHR 0x09, CHR 0x0A, CHR 0x0B, CHR 0x0C, CHR 0x0D}"

definition is_digit :: "char \<Rightarrow> bool" where
  "is_digit c \<longleftrightarrow> (let n = (of_char c :: nat) in 48 \<le> n \<and> n \<le> 57)"

definition digits_value :: "string \<Rightarrow> nat" where
  "digits_value = foldl (\<lambda>v c. v * 10 + (of_char c - 48)) 0"

definition LONG_MAX :: int where "LONG_MAX = 2 ^ 63 - 1"
definition LONG_MIN :: int where "LONG_MIN = - (2 ^ 63)"

text \<open>
  \<open>strtol\<close> in base ten: the value, cut off at the limits of \<open>long\<close>, and the characters from
  \<open>end\<close> on.  Without a digit nothing is consumed.
\<close>

definition strtol :: "string \<Rightarrow> int \<times> string" where
  "strtol str =
     (let s = dropWhile is_space str;
          negative = (s \<noteq> [] \<and> hd s = CHR ''-'');
          s = (if s \<noteq> [] \<and> (hd s = CHR ''-'' \<or> hd s = CHR ''+'') then tl s else s);
          ds = takeWhile is_digit s;
          v = int (digits_value ds)
      in if ds = [] then (0, str)
         else (if negative then max LONG_MIN (- v) else min LONG_MAX v, dropWhile is_digit s))"

definition cast_int32 :: "int \<Rightarrow> int" where
  "cast_int32 v = sint (word_of_int v :: 32 word)"

definition ParseInt32 :: "string \<Rightarrow> string \<Rightarrow> string + int" where
  "ParseInt32 src_text str =
     (let (long_value, rest) = strtol str
      in if rest \<noteq> [] then
           Inl (''WARNING: '' @ src_text @ '' is expected to be a 32-bit integer, but actually'' @
                '' has value '' @ [CHR 0x22] @ str @ [CHR 0x22] @ ''.'' @ [NL])
         else
           (let result = cast_int32 long_value
            in if long_value = LONG_MAX \<or> long_value = LONG_MIN \<or> result \<noteq> long_value then
                 Inl (''WARNING: '' @ src_text @ '' is expected to be a 32-bit integer, but actually'' @
                      '' has value '' @ str @ '', which overflows.'' @ [NL])
               else Inr result))"

section \<open>Environment variables\<close>

type_synonym env = "string \<rightharpoonup> string"

definition FlagToEnvVar :: "string \<Rightarrow> string" where
  "FlagToEnvVar flag = map to_upper (''gtest_'' @ flag)"

definition BoolFromGTestEnv :: "env \<Rightarrow> string \<Rightarrow> bool \<Rightarrow> bool" where
  "BoolFromGTestEnv env flag default_value =
     (case env (FlagToEnvVar flag) of None \<Rightarrow> default_value | Some s \<Rightarrow> s \<noteq> ''0'')"

definition Int32FromGTestEnv :: "env \<Rightarrow> string \<Rightarrow> int \<Rightarrow> int" where
  "Int32FromGTestEnv env flag default_value =
     (case env (FlagToEnvVar flag) of
        None \<Rightarrow> default_value
      | Some string_value \<Rightarrow>
          (case ParseInt32 (''Environment variable '' @ FlagToEnvVar flag) string_value of
             Inl _ \<Rightarrow> default_value
           | Inr result \<Rightarrow> result))"

definition StringFromGTestEnv :: "env \<Rightarrow> string \<Rightarrow> string \<Rightarrow> string" where
  "StringFromGTestEnv env flag default_value =
     (case env (FlagToEnvVar flag) of None \<Rightarrow> default_value | Some v \<Rightarrow> v)"

definition Int32FromEnvOrDie :: "env \<Rightarrow> string \<Rightarrow> int \<Rightarrow> int option" where
  "Int32FromEnvOrDie env var default_val =
     (case env var of
        None \<Rightarrow> Some default_val
      | Some str_val \<Rightarrow>
          (case ParseInt32 (''The value of environment variable '' @ var) str_val of
             Inl _ \<Rightarrow> None
           | Inr result \<Rightarrow> Some result))"

section \<open>The flags\<close>

record gtest_flags =
  also_run_disabled_tests :: bool
  break_on_failure :: bool
  catch_exceptions :: bool
  color_flag :: string
  death_test_style :: string
  death_test_use_fork :: bool
  filter_flag :: string
  internal_run_death_test :: string
  list_tests :: bool
  output_flag :: string
  print_time :: bool
  random_seed_flag :: int
  repeat_flag :: int
  shuffle_flag :: bool
  stack_trace_depth :: int
  stream_result_to :: string
  throw_on_failure :: bool

definition kMaxStackTraceDepth :: int where "kMaxStackTraceDepth = 100"

definition kUniversalFilter :: string where "kUniversalFilter = ''*''"

definition gtest_flags_init :: "env \<Rightarrow> gtest_flags" where
  "gtest_flags_init env =
     \<lparr>also_run_disabled_tests = BoolFromGTestEnv env ''also_run_disabled_tests'' False,
      break_on_failure = BoolFromGTestEnv env ''break_on_failure'' False,
      catch_exceptions = BoolFromGTestEnv env ''catch_exceptions'' True,
      color_flag = StringFromGTestEnv env ''color'' ''auto'',
      death_test_style = StringFromGTestEnv env ''death_test_style'' ''fast'',
      death_test_use_fork = BoolFromGTestEnv env ''death_test_use_fork'' False,
      filter_flag = StringFromGTestEnv env ''filter'' kUniversalFilter,
      internal_run_death_test = [],
      list_tests = False,
      output_flag = StringFromGTestEnv env ''output'' [],
      print_time = BoolFromGTestEnv env ''print_time'' True,
      random_seed_flag = Int32FromGTestEnv env ''random_seed'' 0,
      repeat_flag = Int32FromGTestEnv env ''repeat'' 1,
      shuffle_flag = BoolFromGTestEnv env ''shuffle'' False,
      stack_trace_depth = Int32FromGTestEnv env ''stack_trace_depth'' kMaxStackTraceDepth,
      stream_result_to = StringFromGTestEnv env ''stream_result_to'' [],
      throw_on_failure = BoolFromGTestEnv env ''throw_on_failure'' False\<rparr>"

section \<open>Parsing one argument\<close>

definition SkipPrefix :: "string \<Rightarrow> string \<Rightarrow> string option" where
  "SkipPrefix prefix str = (if take (length prefix) str = prefix then Some (drop (length prefix) str) else None)"

definition ParseFlagValue :: "string \<Rightarrow> string \<Rightarrow> bool \<Rightarrow> string option" where
  "ParseFlagValue str flag def_optional =
     (let flag_str = ''--'' @ ''gtest_'' @ flag
      in if take (length flag_str) str \<noteq> flag_str then None
         else
           (let flag_end = drop (length flag_str) str
            in if def_optional \<and> flag_end = [] then Some flag_end
               else if flag_end = [] \<or> hd flag_end \<noteq> CHR ''='' then None
               else Some (tl flag_end)))"

definition ParseBoolFlag :: "string \<Rightarrow> string \<Rightarrow> bool option" where
  "ParseBoolFlag str flag =
     map_option (\<lambda>value_str. \<not> (value_str \<noteq> [] \<and> hd value_str \<in> {CHR ''0'', CHR ''f'', CHR ''F''}))
       (ParseFlagValue str flag True)"

definition ParseInt32Flag :: "string \<Rightarrow> string \<Rightarrow> (string + int) option" where
  "ParseInt32Flag str flag =
     map_option (ParseInt32 (''The value of flag --'' @ flag)) (ParseFlagValue str flag False)"

definition ParseStringFlag :: "string \<Rightarrow> string \<Rightarrow> string option" where
  "ParseStringFlag str flag = ParseFlagValue str flag False"

definition HasGoogleTestFlagPrefix :: "string \<Rightarrow> bool" where
  "HasGoogleTestFlagPrefix str =
     (case (case SkipPrefix ''--'' str of Some s \<Rightarrow> Some s
            | None \<Rightarrow> (case SkipPrefix ''-'' str of Some s \<Rightarrow> Some s | None \<Rightarrow> SkipPrefix ''/'' str)) of
        None \<Rightarrow> False
      | Some s \<Rightarrow>
          SkipPrefix (''gtest_'' @ ''internal_'') s = None \<and>
          (SkipPrefix ''gtest_'' s \<noteq> None \<or> SkipPrefix ''gtest-'' s \<noteq> None))"

section \<open>The command line\<close>

text \<open>
  One alternative of the condition that tries the flags in turn.  The state is the warnings
  printed so far, the flags and whether an earlier alternative has succeeded.
\<close>

type_synonym attempt = "string list \<times> gtest_flags \<times> bool"

definition try_bool :: "string \<Rightarrow> string \<Rightarrow> (bool \<Rightarrow> gtest_flags \<Rightarrow> gtest_flags) \<Rightarrow> attempt \<Rightarrow> attempt" where
  "try_bool arg flag store s =
     (case s of (ws, fl, ok) \<Rightarrow>
        if ok then s
        else (case ParseBoolFlag arg flag of None \<Rightarrow> s | Some v \<Rightarrow> (ws, store v fl, True)))"

definition try_string :: "string \<Rightarrow> string \<Rightarrow> (string \<Rightarrow> gtest_flags \<Rightarrow> gtest_flags) \<Rightarrow> attempt \<Rightarrow> attempt" where
  "try_string arg flag store s =
     (case s of (ws, fl, ok) \<Rightarrow>
        if ok then s
        else (case ParseStringFlag arg flag of None \<Rightarrow> s | Some v \<Rightarrow> (ws, store v fl, True)))"

definition try_int32 :: "string \<Rightarrow> string \<Rightarrow> (int \<Rightarrow> gtest_flags \<Rightarrow> gtest_flags) \<Rightarrow> attempt \<Rightarrow> attempt" where
  "try_int32 arg flag store s =
     (case s of (ws, fl, ok) \<Rightarrow>
        if ok then s
        else (case ParseInt32Flag arg flag of
                None \<Rightarrow> s
              | Some (Inl w) \<Rightarrow> (ws @ [w], fl, False)
              | Some (Inr v) \<Rightarrow> (ws, store v fl, True)))"

definition ParseGoogleTestFlag :: "string \<Rightarrow> gtest_flags \<Rightarrow> attempt" where
  "ParseGoogleTestFlag arg fl =
     (let s = ([], fl, False);
          s = try_bool arg ''also_run_disabled_tests'' (\<lambda>v fl. fl\<lparr>also_run_disabled_tests := v\<rparr>) s;
          s = try_bool arg ''break_on_failure'' (\<lambda>v fl. fl\<lparr>break_on_failure := v\<rparr>) s;
          s = try_bool arg ''catch_exceptions'' (\<lambda>v fl. fl\<lparr>catch_exceptions := v\<rparr>) s;
          s = try_string arg ''color'' (\<lambda>v fl. fl\<lparr>color_flag := v\<rparr>) s;
          s = try_string arg ''death_test_style'' (\<lambda>v fl. fl\<lparr>death_test_style := v\<rparr>) s;
          s = try_bool arg ''death_test_use_fork'' (\<lambda>v fl. fl\<lparr>death_test_use_fork := v\<rparr>) s;
          s = try_string arg ''filter'' (\<lambda>v fl. fl\<lparr>filter_flag := v\<rparr>) s;
          s = try_string arg ''internal_run_death_test'' (\<lambda>v fl. fl\<lparr>internal_run_death_test := v\<rparr>) s;
          s = try_bool arg ''list_tests'' (\<lambda>v fl. fl\<lparr>list_tests := v\<rparr>) s;
          s = try_string arg ''output'' (\<lambda>v fl. fl\<lparr>output_flag := v\<rparr>) s;
          s = try_bool arg ''print_time'' (\<lambda>v fl. fl\<lparr>print_time := v\<rparr>) s;
          s = try_int32 arg ''random_seed'' (\<lambda>v fl. fl\<lparr>random_seed_flag := v\<rparr>) s;
          s = try_int32 arg ''repeat'' (\<lambda>v fl. fl\<lparr>repeat_flag := v\<rparr>) s;
          s = try_bool arg ''shuffle'' (\<lambda>v fl. fl\<lparr>shuffle_flag := v\<rparr>) s;
          s = try_int32 arg ''stack_trace_depth'' (\<lambda>v fl. fl\<lparr>stack_trace_depth := v\<rparr>) s;
          s = try_string arg ''stream_result_to'' (\<lambda>v fl. fl\<lparr>stream_result_to := v\<rparr>) s
      in try_bool arg ''throw_on_failure'' (\<lambda>v fl. fl\<lparr>throw_on_failure := v\<rparr>) s)"

record command_line =
  argv :: "string list"
  flags :: gtest_flags
  g_help_flag :: bool
  printed :: "string list"

text \<open>
  The loop of \<open>ParseGoogleTestFlagsOnlyImpl\<close>: a recognised argument is removed by shifting
  the rest to the left, and the same index is looked at again.
\<close>

function ParseGoogleTestFlagsOnly_loop :: "nat \<Rightarrow> command_line \<Rightarrow> command_line" where
  "ParseGoogleTestFlagsOnly_loop i s =
     (if i < length (argv s) then
        (let arg = argv s ! i in
         case ParseGoogleTestFlag arg (flags s) of
           (ws, fl, recognised) \<Rightarrow>
             if recognised then
               ParseGoogleTestFlagsOnly_loop i
                 (s\<lparr>argv := take i (argv s) @ drop (i + 1) (argv s), flags := fl, printed := printed s @ ws\<rparr>)
             else
               ParseGoogleTestFlagsOnly_loop (i + 1)
                 (s\<lparr>printed := printed s @ ws,
                    g_help_flag := g_help_flag s \<or> arg \<in> {''--help'', ''-h'', ''-?'', ''/?''} \<or> HasGoogleTestFlagPrefix arg\<rparr>))
      else s)"
  by pat_completeness auto
termination
  by (relation "measure (\<lambda>(i, s). length (argv s) - i)") (auto simp: min_def)

declare ParseGoogleTestFlagsOnly_loop.simps [simp del]

section \<open>Coloured help text\<close>

datatype GTestColor = COLOR_DEFAULT | COLOR_RED | COLOR_GREEN | COLOR_YELLOW

text \<open>\<open>PrintColorEncoded\<close>: the calls of \<open>ColoredPrintf\<close>, with their colour and text.\<close>

lemma dropWhile_shorter: "dropWhile P s = c # r \<Longrightarrow> length r < length s"
  using length_dropWhile_le [of P s] by simp

function PrintColorEncoded_loop :: "GTestColor \<Rightarrow> string \<Rightarrow> (GTestColor \<times> string) list" where
  "PrintColorEncoded_loop col str =
     (case dropWhile (\<lambda>c. c \<noteq> CHR ''@'') str of
        [] \<Rightarrow> [(col, str)]
      | _ # rest \<Rightarrow>
          (col, takeWhile (\<lambda>c. c \<noteq> CHR ''@'') str) #
          (if rest \<noteq> [] \<and> hd rest = CHR ''@'' then (col, ''@'') # PrintColorEncoded_loop col (tl rest)
           else if rest \<noteq> [] \<and> hd rest = CHR ''D'' then PrintColorEncoded_loop COLOR_DEFAULT (tl rest)
           else if rest \<noteq> [] \<and> hd rest = CHR ''R'' then PrintColorEncoded_loop COLOR_RED (tl rest)
           else if rest \<noteq> [] \<and> hd rest = CHR ''G'' then PrintColorEncoded_loop COLOR_GREEN (tl rest)
           else if rest \<noteq> [] \<and> hd rest = CHR ''Y'' then PrintColorEncoded_loop COLOR_YELLOW (tl rest)
           else PrintColorEncoded_loop col rest))"
  by pat_completeness auto
termination
  by (relation "measure (\<lambda>(_, s). length s)") (auto dest: dropWhile_shorter)

declare PrintColorEncoded_loop.simps [simp del]

definition PrintColorEncoded :: "string \<Rightarrow> (GTestColor \<times> string) list" where
  "PrintColorEncoded str = PrintColorEncoded_loop COLOR_DEFAULT str"

definition ParseGoogleTestFlagsOnlyImpl :: "string \<Rightarrow> command_line \<Rightarrow> command_line \<times> (GTestColor \<times> string) list" where
  "ParseGoogleTestFlagsOnlyImpl kColorEncodedHelpMessage s =
     (let s = ParseGoogleTestFlagsOnly_loop 1 s
      in (s, if g_help_flag s then PrintColorEncoded kColorEncodedHelpMessage else []))"

section \<open>Integers\<close>

lemma digit_upper: "k < 10 \<Longrightarrow> of_char (upper_digit k) = 48 + k"
proof -
  have "\<forall>k\<in>set [0..<10]. of_char (upper_digit k) = 48 + k" by code_simp
  then show "k < 10 \<Longrightarrow> of_char (upper_digit k) = 48 + k" by simp
qed

lemma show_base_10:
  "(\<forall>c\<in>set (show_base 10 n). is_digit c) \<and> digits_value (show_base 10 n) = n \<and> show_base 10 n \<noteq> []"
proof (induction "10 :: nat" n rule: show_base.induct)
  case (1 n)
  show ?case
  proof (cases "n < 10")
    case True
    then show ?thesis using digit_upper [of n] by (simp add: show_base.simps [of 10 n] is_digit_def digits_value_def)
  next
    case False
    have "n mod 10 < 10" by simp
    note d = digit_upper [OF this]
    then show ?thesis using 1 False by (simp add: show_base.simps [of 10 n] is_digit_def digits_value_def)
  qed
qed

lemma is_digit_not: "is_digit c \<Longrightarrow> \<not> is_space c \<and> c \<noteq> CHR ''-'' \<and> c \<noteq> CHR ''+''"
  by (auto simp: is_digit_def is_space_def)

lemma strtol_show_int: "strtol (show_int v) = (if v < 0 then max LONG_MIN v else min LONG_MAX v, [])"
proof -
  have *: "strtol (show_base 10 n) = (min LONG_MAX (int n), [])" "strtol (CHR ''-'' # show_base 10 n) = (max LONG_MIN (- int n), [])" for n
  proof -
    obtain c cs where s: "show_base 10 n = c # cs" using show_base_10 [of n] by (cases "show_base 10 n") auto
    have c: "is_digit c" "\<forall>c\<in>set cs. is_digit c" "digits_value (c # cs) = n" using show_base_10 [of n] s by auto
    have t: "takeWhile is_digit cs = cs" "dropWhile is_digit cs = []" using c(2) by auto
    show "strtol (show_base 10 n) = (min LONG_MAX (int n), [])" "strtol (CHR ''-'' # show_base 10 n) = (max LONG_MIN (- int n), [])"
      using is_digit_not [OF c(1)] c(1,3) unfolding s by (simp_all add: strtol_def Let_def t is_space_def)
  qed
  show ?thesis using * [of "nat (- v)"] * [of "nat v"] by (simp add: show_int_def)
qed

lemma cast_int32_id: "cast_int32 v = v \<longleftrightarrow> - (2 ^ 31) \<le> v \<and> v < 2 ^ 31"
proof
  assume "cast_int32 v = v"
  then show "- (2 ^ 31) \<le> v \<and> v < 2 ^ 31"
    using sint_ge [of "word_of_int v :: 32 word"] sint_lt [of "word_of_int v :: 32 word"] by (simp add: cast_int32_def)
next
  assume "- (2 ^ 31) \<le> v \<and> v < 2 ^ 31"
  then show "cast_int32 v = v" unfolding cast_int32_def by (subst signed_of_int) (simp add: signed_take_bit_int_eq_self)
qed

lemma ParseInt32_show_int:
  "ParseInt32 src_text (show_int v) =
     (if - (2 ^ 31) \<le> v \<and> v < 2 ^ 31 then Inr v
      else Inl (''WARNING: '' @ src_text @ '' is expected to be a 32-bit integer, but actually'' @
                '' has value '' @ show_int v @ '', which overflows.'' @ [NL]))"
  using cast_int32_id [of v] cast_int32_id [of LONG_MAX] cast_int32_id [of LONG_MIN]
  by (simp add: ParseInt32_def strtol_show_int Let_def max_def min_def LONG_MAX_def LONG_MIN_def)

section \<open>One argument\<close>

text \<open>What the parser of one argument is meant to accept.\<close>

datatype flag_kind = BoolFlag | StringFlag | IntFlag

definition known_flags :: "(string \<times> flag_kind) list" where
  "known_flags =
     [(''also_run_disabled_tests'', BoolFlag), (''break_on_failure'', BoolFlag), (''catch_exceptions'', BoolFlag),
      (''color'', StringFlag), (''death_test_style'', StringFlag), (''death_test_use_fork'', BoolFlag),
      (''filter'', StringFlag), (''internal_run_death_test'', StringFlag), (''list_tests'', BoolFlag),
      (''output'', StringFlag), (''print_time'', BoolFlag), (''random_seed'', IntFlag), (''repeat'', IntFlag),
      (''shuffle'', BoolFlag), (''stack_trace_depth'', IntFlag), (''stream_result_to'', StringFlag),
      (''throw_on_failure'', BoolFlag)]"

fun is_flag :: "flag_kind \<Rightarrow> string \<Rightarrow> string \<Rightarrow> bool" where
  "is_flag BoolFlag f arg \<longleftrightarrow> arg = ''--gtest_'' @ f \<or> (\<exists>v. arg = ''--gtest_'' @ f @ ''='' @ v)"
| "is_flag StringFlag f arg \<longleftrightarrow> (\<exists>v. arg = ''--gtest_'' @ f @ ''='' @ v)"
| "is_flag IntFlag f arg \<longleftrightarrow>
     (\<exists>v n. arg = ''--gtest_'' @ f @ ''='' @ v \<and> ParseInt32 (''The value of flag --'' @ f) v = Inr n)"

definition recognised :: "string \<Rightarrow> bool" where
  "recognised arg \<longleftrightarrow> (\<exists>(f, k)\<in>set known_flags. is_flag k f arg)"

definition asks_for_help :: "string \<Rightarrow> bool" where
  "asks_for_help arg \<longleftrightarrow> arg \<in> {''--help'', ''-h'', ''-?'', ''/?''} \<or> HasGoogleTestFlagPrefix arg"

lemma take_eq_prefix: "take (length p) s = p \<longleftrightarrow> (\<exists>r. s = p @ r)"
  by (metis append_eq_conv_conj append_take_drop_id)

lemma ParseFlagValue_Some:
  "ParseFlagValue arg f opt = Some v \<longleftrightarrow> arg = ''--gtest_'' @ f @ ''='' @ v \<or> opt \<and> v = [] \<and> arg = ''--gtest_'' @ f"
proof -
  have "ParseFlagValue (''--gtest_'' @ f @ r) f opt = Some v \<longleftrightarrow> r = ''='' @ v \<or> opt \<and> v = [] \<and> r = []" for r
    by (cases r) (auto simp: ParseFlagValue_def Let_def)
  moreover have "ParseFlagValue arg f opt = None" if "\<nexists>r. arg = ''--gtest_'' @ f @ r"
    using that take_eq_prefix [of "''--gtest_'' @ f" arg] by (auto simp: ParseFlagValue_def Let_def)
  ultimately show ?thesis by (cases "\<exists>r. arg = ''--gtest_'' @ f @ r") auto
qed

lemma try_bool_ok: "snd (snd (try_bool arg f st s)) \<longleftrightarrow> snd (snd s) \<or> is_flag BoolFlag f arg"
proof -
  have "ParseBoolFlag arg f \<noteq> None \<longleftrightarrow> arg = ''--gtest_'' @ f \<or> (\<exists>v. arg = ''--gtest_'' @ f @ ''='' @ v)"
    using ParseFlagValue_Some [of arg f True] by (auto simp: ParseBoolFlag_def)
  then show ?thesis by (auto simp: try_bool_def split: option.split prod.split)
qed

lemma try_string_ok: "snd (snd (try_string arg f st s)) \<longleftrightarrow> snd (snd s) \<or> is_flag StringFlag f arg"
proof -
  have "ParseStringFlag arg f \<noteq> None \<longleftrightarrow> (\<exists>v. arg = ''--gtest_'' @ f @ ''='' @ v)"
    using ParseFlagValue_Some [of arg f False] by (auto simp: ParseStringFlag_def)
  then show ?thesis by (auto simp: try_string_def split: option.split prod.split)
qed

lemma try_int32_ok:
  "snd (snd (try_int32 arg f st s)) \<longleftrightarrow> snd (snd s) \<or> is_flag IntFlag f arg"
proof -
  have "(\<exists>n. ParseInt32Flag arg f = Some (Inr n)) \<longleftrightarrow>
      (\<exists>v n. arg = ''--gtest_'' @ f @ ''='' @ v \<and> ParseInt32 (''The value of flag --'' @ f) v = Inr n)"
    using ParseFlagValue_Some [of arg f False] by (auto simp: ParseInt32Flag_def)
  then show ?thesis by (auto simp: try_int32_def split: option.split prod.split sum.split)
qed

lemma ParseGoogleTestFlag_ok: "snd (snd (ParseGoogleTestFlag arg fl)) \<longleftrightarrow> recognised arg"
  unfolding ParseGoogleTestFlag_def Let_def try_bool_ok try_string_ok try_int32_ok recognised_def known_flags_def
  by (simp only: list.set bex_simps prod.case snd_conv simp_thms disj_assoc)

text \<open>The flags after an argument: changed only by a recognised one.\<close>

definition apply_flag :: "string \<Rightarrow> gtest_flags \<Rightarrow> gtest_flags" where
  "apply_flag arg fl = (if recognised arg then fst (snd (ParseGoogleTestFlag arg fl)) else fl)"

section \<open>The pass over the arguments\<close>

lemma ParseGoogleTestFlagsOnly_loop_spec:
  "i \<le> length (argv s) \<Longrightarrow>
     (let s' = ParseGoogleTestFlagsOnly_loop i s; rest = drop i (argv s)
      in argv s' = take i (argv s) @ filter (\<lambda>arg. \<not> recognised arg) rest \<and>
         flags s' = fold apply_flag rest (flags s) \<and>
         (g_help_flag s' \<longleftrightarrow> g_help_flag s \<or> (\<exists>arg\<in>set rest. \<not> recognised arg \<and> asks_for_help arg)))"
proof (induction i s rule: ParseGoogleTestFlagsOnly_loop.induct)
  case (1 i s)
  show ?case
  proof (cases "i < length (argv s)")
    case False
    then show ?thesis using 1(3) by (simp add: ParseGoogleTestFlagsOnly_loop.simps [of "length (argv s)" s] Let_def)
  next
    case True
    define arg where "arg = argv s ! i"
    obtain ws fl ok where p: "ParseGoogleTestFlag arg (flags s) = (ws, fl, ok)" by (metis prod_cases3)
    have ok: "ok \<longleftrightarrow> recognised arg" using ParseGoogleTestFlag_ok [of arg "flags s"] p by simp
    have d: "drop i (argv s) = arg # drop (Suc i) (argv s)" using True by (simp add: arg_def Cons_nth_drop_Suc)
    have t: "take (Suc i) (argv s) = take i (argv s) @ [arg]" using True by (simp add: arg_def take_Suc_conv_app_nth)
    have l: "min (length (argv s)) i = i" using True by simp
    note step = ParseGoogleTestFlagsOnly_loop.simps [of i s, unfolded arg_def [symmetric] Let_def, unfolded p prod.case]
    show ?thesis
    proof (cases ok)
      case ok1: True
      have a: "apply_flag arg (flags s) = fl" using ok1 ok p by (simp add: apply_flag_def)
      show ?thesis
        using 1(1) [OF True refl p [unfolded arg_def, symmetric] refl ok1] True ok1 ok step
        by (simp add: d a Let_def)
    next
      case ok0: False
      have a: "apply_flag arg (flags s) = flags s" using ok0 ok by (simp add: apply_flag_def)
      show ?thesis
        using 1(2) [OF True refl p [unfolded arg_def, symmetric] refl ok0] True ok0 ok step
        by (simp add: d a t Let_def asks_for_help_def arg_def [symmetric] disj_assoc)
    qed
  qed
qed

section \<open>Properties\<close>

text \<open>
  C36: The pass over the command line keeps the program's name, removes exactly the
  arguments that are flags of the framework, keeps the others in their order, applies the
  recognised flags from left to right, and asks for the help text exactly when one of the
  arguments left over asks for it.
\<close>

theorem command_line_parsed:
  assumes "argv s \<noteq> []"
  shows "\<exists>s' hs. ParseGoogleTestFlagsOnlyImpl msg s = (s', hs) \<and>
      argv s' = hd (argv s) # filter (\<lambda>arg. \<not> recognised arg) (tl (argv s)) \<and>
      flags s' = fold apply_flag (tl (argv s)) (flags s) \<and>
      (g_help_flag s' \<longleftrightarrow> g_help_flag s \<or> (\<exists>arg\<in>set (tl (argv s)). \<not> recognised arg \<and> asks_for_help arg)) \<and>
      (hs \<noteq> [] \<longleftrightarrow> g_help_flag s')"
proof -
  have "1 \<le> length (argv s)" using assms by (cases "argv s") auto
  moreover have "PrintColorEncoded msg \<noteq> []"
    by (simp add: PrintColorEncoded_def PrintColorEncoded_loop.simps [of _ msg] split: list.split)
  ultimately show ?thesis
    using ParseGoogleTestFlagsOnly_loop_spec [of 1 s] assms
    by (cases "argv s") (simp_all add: ParseGoogleTestFlagsOnlyImpl_def Let_def)
qed

theorem command_line_parsed_witness:
  "\<exists>s' hs. ParseGoogleTestFlagsOnlyImpl ''usage''
       \<lparr>argv = [''test'', ''--gtest_repeat=3'', ''input'', ''--gtest_shuffle''], flags = gtest_flags_init Map.empty,
        g_help_flag = False, printed = []\<rparr> = (s', hs) \<and> hd (argv s') = ''test''"
  using command_line_parsed [of "\<lparr>argv = [''test'', ''--gtest_repeat=3'', ''input'', ''--gtest_shuffle''],
      flags = gtest_flags_init Map.empty, g_help_flag = False, printed = []\<rparr>" "''usage''"]
  by auto

text \<open>
  An integer written in decimal is read back by the integer parser exactly when it fits
  into 32 signed bits; outside this range, also beyond the range of \<open>long\<close>, it is refused.
\<close>

theorem integer_flag_round_trip:
  "ParseInt32 src_text (show_int v) =
     (if - (2 ^ 31) \<le> v \<and> v < 2 ^ 31 then Inr v
      else Inl (''WARNING: '' @ src_text @ '' is expected to be a 32-bit integer, but actually'' @
                '' has value '' @ show_int v @ '', which overflows.'' @ [NL]))"
  by (rule ParseInt32_show_int)

text \<open>An empty value is taken for zero although it holds no integer.\<close>

lemma empty_integer_accepted: "ParseInt32 src_text [] = Inr 0"
  by (simp add: ParseInt32_def strtol_def cast_int32_def LONG_MAX_def LONG_MIN_def)

end
