(* ===== verification/Gtest_Filter.thy ===== *)
theory Gtest_Filter
  imports Gtest_Flags "HOL-Library.Multiset"
begin

text \<open>
  Selection and order of the tests (\<open>gtest.cc\<close>, \<open>gtest-internal-inl.h\<close>): the glob patterns of
  the filter flag, the environment variables for sharding, the random numbers and the
  shuffle.

  A string that the source reads through \<open>c_str\<close> ends at its first NUL.  A failed
  \<open>GTEST_CHECK_\<close> and a call of \<open>exit\<close> end the program, which is \<open>None\<close>.
\<close>

section \<open>Filters\<close>

definition kDisableTestFilter :: string where "kDisableTestFilter = ''DISABLED_*:*/DISABLED_*''"

definition kDeathTestCaseFilter :: string where "kDeathTestCaseFilter = ''*DeathTest:*DeathTest/*''"

declare conj_cong [fundef_cong]

function PatternMatchesString :: "string \<Rightarrow> string \<Rightarrow> bool" where
  "PatternMatchesString pattern str =
     (if pattern = [] \<or> hd pattern = CHR '':'' then str = []
      else if hd pattern = CHR ''?'' then str \<noteq> [] \<and> PatternMatchesString (tl pattern) (tl str)
      else if hd pattern = CHR ''*'' then
        (str \<noteq> [] \<and> PatternMatchesString pattern (tl str)) \<or> PatternMatchesString (tl pattern) str
      else str \<noteq> [] \<and> hd pattern = hd str \<and> PatternMatchesString (tl pattern) (tl str))"
  by pat_completeness auto
termination
  by (relation "measure (\<lambda>(p, s). length p + length s)") (auto simp: neq_Nil_conv)

declare PatternMatchesString.simps [simp del]

function MatchesFilter_loop :: "string \<Rightarrow> string \<Rightarrow> bool" where
  "MatchesFilter_loop name cur_pattern =
     (if PatternMatchesString cur_pattern (c_str name) then True
      else (case dropWhile (\<lambda>c. c \<noteq> CHR '':'') cur_pattern of
              [] \<Rightarrow> False
            | _ # next_pattern \<Rightarrow> MatchesFilter_loop name next_pattern))"
  by pat_completeness auto
termination
  by (relation "measure (\<lambda>(_, p). length p)") (auto dest: dropWhile_shorter)

declare MatchesFilter_loop.simps [simp del]

definition MatchesFilter :: "string \<Rightarrow> string \<Rightarrow> bool" where
  "MatchesFilter name filter_pattern = MatchesFilter_loop name filter_pattern"

definition FilterMatchesTest :: "gtest_flags \<Rightarrow> string \<Rightarrow> string \<Rightarrow> bool" where
  "FilterMatchesTest fl test_case_name test_name =
     (let full_name = test_case_name @ ''.'' @ c_str test_name;
          p = c_str (filter_flag fl);
          (positive, negative) =
            (case dropWhile (\<lambda>c. c \<noteq> CHR ''-'') p of
               [] \<Rightarrow> (p, [])
             | _ # after_dash \<Rightarrow>
                 (let positive = takeWhile (\<lambda>c. c \<noteq> CHR ''-'') p
                  in (if positive = [] then kUniversalFilter else positive, after_dash)))
      in MatchesFilter full_name (c_str positive) \<and> \<not> MatchesFilter full_name (c_str negative))"

section \<open>Sharding\<close>

definition kTestShardIndex :: string where "kTestShardIndex = ''GTEST_SHARD_INDEX''"
definition kTestTotalShards :: string where "kTestTotalShards = ''GTEST_TOTAL_SHARDS''"
definition kTestShardStatusFile :: string where "kTestShardStatusFile = ''GTEST_SHARD_STATUS_FILE''"

definition ShouldShard :: "env \<Rightarrow> string \<Rightarrow> string \<Rightarrow> bool \<Rightarrow> bool option" where
  "ShouldShard env total_shards_env shard_index_env in_subprocess_for_death_test =
     (if in_subprocess_for_death_test then Some False
      else
        (case Int32FromEnvOrDie env total_shards_env (- 1) of
           None \<Rightarrow> None
         | Some total_shards \<Rightarrow>
             (case Int32FromEnvOrDie env shard_index_env (- 1) of
                None \<Rightarrow> None
              | Some shard_index \<Rightarrow>
                  if total_shards = - 1 \<and> shard_index = - 1 then Some False
                  else if total_shards = - 1 \<and> shard_index \<noteq> - 1 then None
                  else if total_shards \<noteq> - 1 \<and> shard_index = - 1 then None
                  else if shard_index < 0 \<or> shard_index \<ge> total_shards then None
                  else Some (total_shards > 1))))"

definition c_mod :: "int \<Rightarrow> int \<Rightarrow> int" where
  "c_mod a b = sgn a * (\<bar>a\<bar> mod \<bar>b\<bar>)"

definition ShouldRunTestOnShard :: "int \<Rightarrow> int \<Rightarrow> int \<Rightarrow> bool" where
  "ShouldRunTestOnShard total_shards shard_index test_id \<longleftrightarrow> c_mod test_id total_shards = shard_index"

section \<open>Random numbers\<close>

definition kMaxRange :: u32 where "kMaxRange = push_bit 31 1"

text \<open>The class \<open>Random\<close> has the member \<open>state_\<close> only.\<close>

definition Generate :: "u32 \<Rightarrow> u32 \<Rightarrow> (u32 \<times> u32) option" where
  "Generate st n =
     (let st = (1103515245 * st + 12345) mod kMaxRange
      in if \<not> n > 0 then None else if \<not> n \<le> kMaxRange then None else Some (st mod n, st))"

definition Reseed :: "u32 \<Rightarrow> u32 \<Rightarrow> u32" where
  "Reseed seed st = seed"

definition kMaxRandomSeed :: int where "kMaxRandomSeed = 99999"

definition GetRandomSeedFromFlag :: "int \<Rightarrow> int \<Rightarrow> int" where
  "GetRandomSeedFromFlag now random_seed =
     (let raw_seed = (if random_seed = 0 then word_of_int now else word_of_int random_seed :: u32)
      in cast_int32 (uint ((raw_seed - 1) mod word_of_int kMaxRandomSeed)) + 1)"

definition GetNextRandomSeed :: "int \<Rightarrow> int option" where
  "GetNextRandomSeed seed =
     (if 1 \<le> seed \<and> seed \<le> kMaxRandomSeed then
        (let next_seed = seed + 1 in Some (if next_seed > kMaxRandomSeed then 1 else next_seed))
      else None)"

section \<open>The shuffle\<close>

fun ShuffleRange_loop :: "nat \<Rightarrow> nat \<Rightarrow> u32 \<Rightarrow> 'a list \<Rightarrow> ('a list \<times> u32) option" where
  "ShuffleRange_loop 0 b st v = Some (v, st)"
| "ShuffleRange_loop (Suc n) b st v =
     (if Suc n \<ge> 2 then
        (let last_in_range = b + Suc n - 1 in
         case Generate st (of_nat (Suc n)) of
           None \<Rightarrow> None
         | Some (r, st) \<Rightarrow>
             (let selected = b + unat r
              in ShuffleRange_loop n b st (v[selected := v ! last_in_range, last_in_range := v ! selected])))
      else Some (v, st))"

definition ShuffleRange :: "int \<Rightarrow> int \<Rightarrow> 'a list \<Rightarrow> u32 \<Rightarrow> ('a list \<times> u32) option" where
  "ShuffleRange b e v st =
     (let size = cast_int32 (int (length v))
      in if \<not> (0 \<le> b \<and> b \<le> size) then None
         else if \<not> (b \<le> e \<and> e \<le> size) then None
         else ShuffleRange_loop (nat (e - b)) (nat b) st v)"

definition Shuffle :: "'a list \<Rightarrow> u32 \<Rightarrow> ('a list \<times> u32) option" where
  "Shuffle v st = ShuffleRange 0 (cast_int32 (int (length v))) v st"

section \<open>What filters mean\<close>

text \<open>The language of a glob pattern, and the patterns of a filter.\<close>

fun glob :: "string \<Rightarrow> string set" where
  "glob [] = {[]}"
| "glob (c # p) =
     (if c = CHR ''?'' then {d # s |d s. s \<in> glob p}
      else if c = CHR ''*'' then {s @ t |s t. t \<in> glob p}
      else {c # s |s. s \<in> glob p})"

fun patterns :: "string \<Rightarrow> string list" where
  "patterns [] = [[]]"
| "patterns (c # f) =
     (if c = CHR '':'' then [] # patterns f else (c # hd (patterns f)) # tl (patterns f))"

definition filter_lang :: "string \<Rightarrow> string set" where
  "filter_lang f = (\<Union>p\<in>set (patterns f). glob p)"

lemma patterns_nonempty [simp]: "patterns f \<noteq> []"
  by (cases f) auto

lemma hd_patterns: "hd (patterns f) = takeWhile (\<lambda>c. c \<noteq> CHR '':'') f"
  by (induction f) auto

lemma tl_patterns: "tl (patterns f) = (case dropWhile (\<lambda>c. c \<noteq> CHR '':'') f of [] \<Rightarrow> [] | _ # r \<Rightarrow> patterns r)"
  by (induction f) auto

lemma glob_star: "s \<in> glob (CHR ''*'' # p) \<longleftrightarrow> s \<in> glob p \<or> (\<exists>c t. s = c # t \<and> t \<in> glob (CHR ''*'' # p))"
proof
  assume "s \<in> glob (CHR ''*'' # p)"
  then obtain u t where "s = u @ t" "t \<in> glob p" by auto
  then show "s \<in> glob p \<or> (\<exists>c t. s = c # t \<and> t \<in> glob (CHR ''*'' # p))" by (cases u) auto
next
  assume "s \<in> glob p \<or> (\<exists>c t. s = c # t \<and> t \<in> glob (CHR ''*'' # p))"
  then show "s \<in> glob (CHR ''*'' # p)"
  proof
    assume "s \<in> glob p"
    then have "s = [] @ s \<and> s \<in> glob p" by simp
    then show ?thesis by auto
  next
    assume "\<exists>c t. s = c # t \<and> t \<in> glob (CHR ''*'' # p)"
    then obtain c u t where "s = (c # u) @ t" "t \<in> glob p" by auto
    then show ?thesis unfolding glob.simps by (simp del: append_Cons) blast
  qed
qed

lemma PatternMatchesString_Nil: "PatternMatchesString [] s \<longleftrightarrow> s = []"
  by (subst PatternMatchesString.simps) simp

lemma PatternMatchesString_Cons:
  "PatternMatchesString (c # q) [] \<longleftrightarrow> c = CHR '':'' \<or> c = CHR ''*'' \<and> PatternMatchesString q []"
  "PatternMatchesString (c # q) (d # s) \<longleftrightarrow>
     c \<noteq> CHR '':'' \<and>
     (if c = CHR ''*'' then PatternMatchesString (c # q) s \<or> PatternMatchesString q (d # s)
      else (c = CHR ''?'' \<or> c = d) \<and> PatternMatchesString q s)"
proof -
  show "PatternMatchesString (c # q) [] \<longleftrightarrow> c = CHR '':'' \<or> c = CHR ''*'' \<and> PatternMatchesString q []"
    using PatternMatchesString.simps [of "c # q" "[]"] by auto
  show "PatternMatchesString (c # q) (d # s) \<longleftrightarrow>
     c \<noteq> CHR '':'' \<and>
     (if c = CHR ''*'' then PatternMatchesString (c # q) s \<or> PatternMatchesString q (d # s)
      else (c = CHR ''?'' \<or> c = d) \<and> PatternMatchesString q s)"
    using PatternMatchesString.simps [of "c # q" "d # s"] by auto
qed

lemma PatternMatchesString_glob: "PatternMatchesString p s \<longleftrightarrow> s \<in> glob (takeWhile (\<lambda>c. c \<noteq> CHR '':'') p)"
proof (induction p arbitrary: s)
  case (Cons c q)
  show ?case
  proof (cases "c = CHR ''*''")
    case True
    show ?thesis
    proof (induction s)
      case Nil
      then show ?case using True Cons by (simp add: PatternMatchesString_Cons)
    next
      case (Cons d s)
      then show ?case using True \<open>\<And>s. PatternMatchesString q s \<longleftrightarrow> _ s\<close>
        by (simp add: PatternMatchesString_Cons glob_star [of "d # s"] disj_commute del: glob.simps)
    qed
  next
    case False
    then show ?thesis using Cons by (cases s) (auto simp: PatternMatchesString_Cons)
  qed
qed (simp add: PatternMatchesString_Nil)

lemma MatchesFilter_lang: "MatchesFilter name f \<longleftrightarrow> c_str name \<in> filter_lang f"
proof -
  have "MatchesFilter_loop name f \<longleftrightarrow> (\<exists>p\<in>set (patterns f). c_str name \<in> glob p)" for f
  proof (induction name f rule: MatchesFilter_loop.induct)
    case (1 name f)
    have "patterns f = hd (patterns f) # tl (patterns f)" by simp
    then have "(\<exists>p\<in>set (patterns f). c_str name \<in> glob p) \<longleftrightarrow>
        c_str name \<in> glob (hd (patterns f)) \<or> (\<exists>p\<in>set (tl (patterns f)). c_str name \<in> glob p)"
      by (metis list.set_intros set_ConsD)
    then show ?case using 1
      by (cases "dropWhile (\<lambda>c. c \<noteq> CHR '':'') f")
        (simp_all add: MatchesFilter_loop.simps [of name f] PatternMatchesString_glob hd_patterns tl_patterns
          del: dropWhile_eq_Nil_conv)
  qed
  then show ?thesis by (simp add: MatchesFilter_def filter_lang_def)
qed

section \<open>What the shuffle does\<close>

lemma Generate_bound:
  assumes "0 < n" "n < 2 ^ 31"
  shows "\<exists>r st'. Generate st (of_nat n) = Some (r, st') \<and> unat r < n"
proof -
  have u: "unat (of_nat n :: u32) = n" using assms by (simp add: unat_of_nat take_bit_eq_mod)
  then have "(0 :: u32) < of_nat n" using assms by (simp add: word_less_nat_alt)
  moreover have "of_nat n \<le> kMaxRange" using assms u by (simp add: word_le_nat_alt kMaxRange_def)
  moreover have "unat (x mod of_nat n :: u32) < n" for x using assms u by (simp add: unat_mod)
  ultimately show ?thesis by (simp add: Generate_def Let_def)
qed

lemma swap_outside:
  assumes "b \<le> i" "i < e" "b \<le> j" "j < e" "e \<le> length v"
  defines "w \<equiv> v[i := v ! j, j := v ! i]"
  shows "take b w = take b v" "drop e w = drop e v" "mset w = mset v" "length w = length v"
  using assms by (simp_all add: w_def mset_swap)

lemma mset_middle:
  assumes "mset w = mset v" "take b w = take b v" "drop e w = drop e v" "b \<le> e"
  shows "mset (take (e - b) (drop b w)) = mset (take (e - b) (drop b v))"
proof -
  have "x = take b x @ take (e - b) (drop b x) @ drop e x" for x :: "'a list"
    using append_take_drop_id [of "e - b" "drop b x"] assms(4) by simp
  then have "mset x = mset (take b x) + mset (take (e - b) (drop b x)) + mset (drop e x)" for x :: "'a list"
    by (metis mset_append add.assoc)
  from this [of w] this [of v] show ?thesis using assms by simp
qed

lemma ShuffleRange_loop_spec:
  assumes "b + n \<le> e" "e \<le> length v" "length v < 2 ^ 31"
  shows "\<exists>w st'. ShuffleRange_loop n b st v = Some (w, st') \<and>
     mset w = mset v \<and> length w = length v \<and> take b w = take b v \<and> drop e w = drop e v"
  using assms
proof (induction n b st v rule: ShuffleRange_loop.induct)
  case (2 n b st v)
  show ?case
  proof (cases "Suc n \<ge> 2")
    case True
    obtain r st' where g: "Generate st (of_nat (Suc n)) = Some (r, st')" "unat r < Suc n"
      using Generate_bound [of "Suc n" st] 2(2,3,4) by fastforce
    let ?v = "v[b + unat r := v ! (b + Suc n - 1), b + Suc n - 1 := v ! (b + unat r)]"
    have s: "take b ?v = take b v" "drop e ?v = drop e v" "mset ?v = mset v" "length ?v = length v"
      using swap_outside [of b "b + unat r" e "b + Suc n - 1" v] g(2) 2(2,3) by simp_all
    show ?thesis using 2(1) [OF True refl g(1) refl refl] 2(2,3,4) True g(1) s by (simp add: Let_def)
  qed simp
qed simp

lemma ShuffleRange_spec:
  assumes "length v < 2 ^ 31"
  shows "ShuffleRange b e v st = None \<longleftrightarrow> \<not> (0 \<le> b \<and> b \<le> e \<and> e \<le> int (length v))"
    "ShuffleRange b e v st = Some (w, st') \<Longrightarrow>
       mset w = mset v \<and> length w = length v \<and> take (nat b) w = take (nat b) v \<and> drop (nat e) w = drop (nat e) v \<and>
       mset (take (nat e - nat b) (drop (nat b) w)) = mset (take (nat e - nat b) (drop (nat b) v))"
proof -
  have c: "cast_int32 (int (length v)) = int (length v)" using assms by (simp add: cast_int32_id)
  have l: "\<exists>w st'. ShuffleRange_loop (nat (e - b)) (nat b) st v = Some (w, st') \<and>
      mset w = mset v \<and> length w = length v \<and> take (nat b) w = take (nat b) v \<and> drop (nat e) w = drop (nat e) v"
    if "0 \<le> b" "b \<le> e" "e \<le> int (length v)"
    using ShuffleRange_loop_spec [of "nat b" "nat (e - b)" "nat e" v st] that assms by (simp add: nat_le_iff)
  then show "ShuffleRange b e v st = None \<longleftrightarrow> \<not> (0 \<le> b \<and> b \<le> e \<and> e \<le> int (length v))"
    by (auto simp: ShuffleRange_def c Let_def)
  assume r: "ShuffleRange b e v st = Some (w, st')"
  then have "0 \<le> b" "b \<le> e" "e \<le> int (length v)" by (auto simp: ShuffleRange_def c Let_def split: if_splits)
  with l r show "mset w = mset v \<and> length w = length v \<and> take (nat b) w = take (nat b) v \<and> drop (nat e) w = drop (nat e) v \<and>
       mset (take (nat e - nat b) (drop (nat b) w)) = mset (take (nat e - nat b) (drop (nat b) v))"
    using mset_middle [of w v "nat b" "nat e"] by (auto simp: ShuffleRange_def c Let_def nat_le_eq_zle)
qed

section \<open>Seeds\<close>

lemma random_seed_range: "1 \<le> GetRandomSeedFromFlag now s \<and> GetRandomSeedFromFlag now s \<le> kMaxRandomSeed"
proof -
  have "0 \<le> uint (x mod 99999 :: u32) \<and> uint (x mod 99999 :: u32) < 99999" for x
    by (simp add: uint_mod)
  moreover have "cast_int32 k = k" if "0 \<le> k \<and> k < 99999" for k using that by (simp add: cast_int32_id)
  ultimately have "0 \<le> cast_int32 (uint (x mod 99999 :: u32)) \<and> cast_int32 (uint (x mod 99999 :: u32)) < 99999" for x
    by simp
  then show ?thesis by (simp add: GetRandomSeedFromFlag_def kMaxRandomSeed_def Let_def zless_imp_add1_zle less_le_not_le not_le [symmetric])
qed

lemma next_seed_range:
  assumes "1 \<le> s" "s \<le> kMaxRandomSeed"
  shows "\<exists>t. GetNextRandomSeed s = Some t \<and> 1 \<le> t \<and> t \<le> kMaxRandomSeed \<and> t \<noteq> s"
  using assms by (auto simp: GetNextRandomSeed_def kMaxRandomSeed_def Let_def)

section \<open>Properties\<close>

text \<open>
  C37: A test matches the filter flag exactly when its full name is in the language of one
  of the glob patterns before the first dash, or there is nothing before it, and in none of
  the languages of the patterns after it.
\<close>

theorem filter_semantics:
  "FilterMatchesTest fl test_case_name test_name \<longleftrightarrow>
     (let full = c_str (test_case_name @ ''.'' @ c_str test_name);
          f = c_str (filter_flag fl);
          positive = takeWhile (\<lambda>c. c \<noteq> CHR ''-'') f;
          rest = dropWhile (\<lambda>c. c \<noteq> CHR ''-'') f
      in (full \<in> filter_lang positive \<or> positive = [] \<and> rest \<noteq> []) \<and> \<not> full \<in> filter_lang (drop 1 rest))"
proof -
  have u: "filter_lang kUniversalFilter = UNIV"
    by (auto simp: filter_lang_def kUniversalFilter_def)
  have k: "c_str kUniversalFilter = kUniversalFilter" by (simp add: c_str_def kUniversalFilter_def)
  have n: "NUL \<notin> set (c_str f)" for f by (auto simp: c_str_def dest: set_takeWhileD)
  then have t: "c_str (takeWhile P (c_str f)) = takeWhile P (c_str f)" for P f
    by (intro c_str_all) (auto dest: set_takeWhileD)
  show ?thesis
  proof (cases "dropWhile (\<lambda>c. c \<noteq> CHR ''-'') (c_str (filter_flag fl))")
    case Nil
    then have "takeWhile (\<lambda>c. c \<noteq> CHR ''-'') (c_str (filter_flag fl)) = c_str (filter_flag fl)"
      by (simp only: takeWhile_eq_all_conv dropWhile_eq_Nil_conv)
    then show ?thesis using Nil n [of "filter_flag fl"]
      by (simp add: FilterMatchesTest_def Let_def MatchesFilter_lang c_str_all del: dropWhile_eq_Nil_conv takeWhile_eq_all_conv)
  next
    case (Cons c r)
    then have "NUL \<notin> set r" using n [of "filter_flag fl"] by (metis list.set_intros(2) set_dropWhileD)
    then show ?thesis using Cons
      by (cases "takeWhile (\<lambda>c. c \<noteq> CHR ''-'') (c_str (filter_flag fl)) = []")
        (simp_all add: FilterMatchesTest_def Let_def MatchesFilter_lang t u k c_str_all del: dropWhile_eq_Nil_conv)
  qed
qed

text \<open>
  The shuffle of a range ends the program exactly when the range is not one of the
  vector; otherwise it permutes the elements of the range and leaves all others in place.
\<close>

theorem shuffle_permutes_range:
  assumes "length v < 2 ^ 31"
  shows "case ShuffleRange b e v st of
       None \<Rightarrow> \<not> (0 \<le> b \<and> b \<le> e \<and> e \<le> int (length v))
     | Some (w, st') \<Rightarrow>
         0 \<le> b \<and> b \<le> e \<and> e \<le> int (length v) \<and> length w = length v \<and>
         take (nat b) w = take (nat b) v \<and> drop (nat e) w = drop (nat e) v \<and>
         mset (take (nat e - nat b) (drop (nat b) w)) = mset (take (nat e - nat b) (drop (nat b) v))"
  using ShuffleRange_spec [OF assms, of b e st] by (cases "ShuffleRange b e v st") auto

theorem shuffle_permutes_range_witness:
  "\<exists>w st'. ShuffleRange 1 3 [10, 20, 30, 40 :: nat] 7 = Some (w, st') \<and>
     take 1 w = [10] \<and> drop 3 w = [40] \<and> mset (take 2 (drop 1 w)) = {#20, 30#}"
  using shuffle_permutes_range [of "[10, 20, 30, 40 :: nat]" 1 3 7]
  by (cases "ShuffleRange 1 3 [10, 20, 30, 40 :: nat] 7") (simp_all add: add_mset_commute split: prod.splits)

end
