(* ===== verification/Gtest_Result.thy ===== *)
theory Gtest_Result
  imports Gtest_Filter
begin

text \<open>
  Results of assertions, tests and test cases (\<open>gtest-test-part.h\<close>, \<open>gtest-test-part.cc\<close>,
  \<open>gtest.h\<close>, \<open>gtest.cc\<close>).  The names of members carry a prefix where several classes share
  them.  Functions the user has written are identified by numbers, and so are fixture
  classes.  A failed bound check that ends the program is \<open>None\<close>.
\<close>

section \<open>Containers\<close>

definition CountIf :: "('a \<Rightarrow> bool) \<Rightarrow> 'a list \<Rightarrow> nat" where
  "CountIf predicate c = length (filter predicate c)"

definition GetElementOr :: "'a list \<Rightarrow> int \<Rightarrow> 'a \<Rightarrow> 'a" where
  "GetElementOr v i default_value = (if i < 0 \<or> i \<ge> int (length v) then default_value else v ! nat i)"

section \<open>Results of assertions\<close>

datatype TestPartResult_Type = kSuccess | kNonFatalFailure | kFatalFailure

record TestPartResult =
  tpr_type :: TestPartResult_Type
  tpr_file_name :: string
  tpr_line_number :: int
  tpr_summary :: string
  tpr_message :: string

definition kStackTraceMarker :: string where
  "kStackTraceMarker = [NL] @ ''Stack trace:'' @ [NL]"

text \<open>\<open>strstr\<close>: the part of a string before the first occurrence of another one.\<close>

fun before_strstr :: "string \<Rightarrow> string \<Rightarrow> string option" where
  "before_strstr needle [] = (if needle = [] then Some [] else None)"
| "before_strstr needle (c # s) =
     (if take (length needle) (c # s) = needle then Some [] else map_option (Cons c) (before_strstr needle s))"

definition ExtractSummary :: "string \<Rightarrow> string" where
  "ExtractSummary message =
     (case before_strstr kStackTraceMarker message of None \<Rightarrow> message | Some s \<Rightarrow> s)"

definition TestPartResult_new :: "TestPartResult_Type \<Rightarrow> string option \<Rightarrow> int \<Rightarrow> string \<Rightarrow> TestPartResult" where
  "TestPartResult_new a_type a_file_name a_line_number a_message =
     \<lparr>tpr_type = a_type, tpr_file_name = (case a_file_name of None \<Rightarrow> [] | Some f \<Rightarrow> f),
      tpr_line_number = a_line_number, tpr_summary = ExtractSummary a_message, tpr_message = a_message\<rparr>"

definition file_name :: "TestPartResult \<Rightarrow> string option" where
  "file_name r = (if tpr_file_name r = [] then None else Some (c_str (tpr_file_name r)))"

definition passed :: "TestPartResult \<Rightarrow> bool" where
  "passed r \<longleftrightarrow> tpr_type r = kSuccess"

definition failed :: "TestPartResult \<Rightarrow> bool" where
  "failed r \<longleftrightarrow> tpr_type r \<noteq> kSuccess"

definition nonfatally_failed :: "TestPartResult \<Rightarrow> bool" where
  "nonfatally_failed r \<longleftrightarrow> tpr_type r = kNonFatalFailure"

definition fatally_failed :: "TestPartResult \<Rightarrow> bool" where
  "fatally_failed r \<longleftrightarrow> tpr_type r = kFatalFailure"

text \<open>
  Printing a result on a stream.  The name of an unknown file is a null pointer, and printing
  it is undefined.
\<close>

definition show_TestPartResult :: "TestPartResult \<Rightarrow> string option" where
  "show_TestPartResult r =
     (case file_name r of
        None \<Rightarrow> None
      | Some f \<Rightarrow>
          Some (f @ '':'' @ show_int (tpr_line_number r) @ '': '' @
            (if tpr_type r = kSuccess then ''Success''
             else if tpr_type r = kFatalFailure then ''Fatal failure'' else ''Non-fatal failure'') @ '':'' @ [NL] @
            c_str (tpr_message r) @ [NL]))"

type_synonym TestPartResultArray = "TestPartResult list"

definition array_GetTestPartResult :: "TestPartResultArray \<Rightarrow> int \<Rightarrow> TestPartResult option" where
  "array_GetTestPartResult a index = (if index < 0 \<or> index \<ge> int (length a) then None else Some (a ! nat index))"

text \<open>The text of a file location (\<open>gtest-port.cc\<close>); the compiler is not one of Microsoft's.\<close>

definition kUnknownFile :: string where "kUnknownFile = ''unknown file''"

definition FormatFileLocation :: "string option \<Rightarrow> int \<Rightarrow> string" where
  "FormatFileLocation file line =
     (let f = (case file of None \<Rightarrow> kUnknownFile | Some f \<Rightarrow> f)
      in if line < 0 then f @ '':'' else f @ '':'' @ show_int line @ '':'')"

definition FormatCompilerIndependentFileLocation :: "string option \<Rightarrow> int \<Rightarrow> string" where
  "FormatCompilerIndependentFileLocation file line =
     (let f = (case file of None \<Rightarrow> kUnknownFile | Some f \<Rightarrow> f)
      in if line < 0 then f else f @ '':'' @ show_int line)"

definition TestPartResultTypeToString :: "TestPartResult_Type \<Rightarrow> string" where
  "TestPartResultTypeToString t =
     (case t of kSuccess \<Rightarrow> ''Success'' | kNonFatalFailure \<Rightarrow> ''Failure'' @ [NL] | kFatalFailure \<Rightarrow> ''Failure'' @ [NL])"

definition PrintTestPartResultToString :: "TestPartResult \<Rightarrow> string" where
  "PrintTestPartResultToString r =
     FormatFileLocation (file_name r) (tpr_line_number r) @ '' '' @ TestPartResultTypeToString (tpr_type r) @
     c_str (tpr_message r)"

fun concat_option :: "string option list \<Rightarrow> string option" where
  "concat_option [] = Some []"
| "concat_option (None # xs) = None"
| "concat_option (Some x # xs) = map_option (append x) (concat_option xs)"

text \<open>
  The check that exactly one failure of a type with a text was intercepted: success or
  failure, with the message, and \<open>None\<close> for the undefined case.
\<close>

definition HasOneFailure :: "TestPartResultArray \<Rightarrow> TestPartResult_Type \<Rightarrow> string \<Rightarrow> (bool \<times> string) option" where
  "HasOneFailure results type substr =
     (let expected = (if type = kFatalFailure then ''1 fatal failure'' else ''1 non-fatal failure'')
      in if length results \<noteq> 1 then
           map_option (\<lambda>shown. (False, ''Expected: '' @ expected @ [NL] @ ''  Actual: '' @
                          show_int (int (length results)) @ '' failures'' @ shown))
             (concat_option (map (\<lambda>r. map_option (append [NL]) (show_TestPartResult r)) results))
         else
           (let r = hd results
            in if tpr_type r \<noteq> type then
                 map_option (\<lambda>shown. (False, ''Expected: '' @ expected @ [NL] @ ''  Actual:'' @ [NL] @ shown))
                   (show_TestPartResult r)
               else if before_strstr (c_str substr) (c_str (tpr_message r)) = None then
                 map_option (\<lambda>shown. (False, ''Expected: '' @ expected @ '' containing '' @ [CHR 0x22] @ substr @ [CHR 0x22] @
                                [NL] @ ''  Actual:'' @ [NL] @ shown))
                   (show_TestPartResult r)
               else Some (True, [])))"

section \<open>Results of tests\<close>

record TestProperty =
  prop_key :: string
  prop_value :: string

record TestResult =
  test_part_results :: "TestPartResult list"
  test_properties :: "TestProperty list"
  death_test_count :: int
  elapsed_time :: int

definition TestResult_new :: TestResult where
  "TestResult_new = \<lparr>test_part_results = [], test_properties = [], death_test_count = 0, elapsed_time = 0\<rparr>"

definition total_part_count :: "TestResult \<Rightarrow> int" where
  "total_part_count r = int (length (test_part_results r))"

definition test_property_count :: "TestResult \<Rightarrow> int" where
  "test_property_count r = int (length (test_properties r))"

definition GetTestPartResult :: "TestResult \<Rightarrow> int \<Rightarrow> TestPartResult option" where
  "GetTestPartResult r i = (if i < 0 \<or> i \<ge> total_part_count r then None else Some (test_part_results r ! nat i))"

definition GetTestProperty :: "TestResult \<Rightarrow> int \<Rightarrow> TestProperty option" where
  "GetTestProperty r i = (if i < 0 \<or> i \<ge> test_property_count r then None else Some (test_properties r ! nat i))"

definition ClearTestPartResults :: "TestResult \<Rightarrow> TestResult" where
  "ClearTestPartResults r = r\<lparr>test_part_results := []\<rparr>"

definition add_part :: "TestPartResult \<Rightarrow> TestResult \<Rightarrow> TestResult" where
  "add_part p r = r\<lparr>test_part_results := test_part_results r @ [p]\<rparr>"

definition increment_death_test_count :: "TestResult \<Rightarrow> TestResult \<times> int" where
  "increment_death_test_count r = (r\<lparr>death_test_count := death_test_count r + 1\<rparr>, death_test_count r + 1)"

definition TestResult_Clear :: "TestResult \<Rightarrow> TestResult" where
  "TestResult_Clear r = \<lparr>test_part_results = [], test_properties = [], death_test_count = 0, elapsed_time = 0\<rparr>"

definition set_elapsed_time :: "int \<Rightarrow> TestResult \<Rightarrow> TestResult" where
  "set_elapsed_time elapsed r = r\<lparr>elapsed_time := elapsed\<rparr>"

text \<open>The loop of \<open>Failed\<close>, which stops at the first failure.\<close>

fun Failed_loop :: "TestPartResult list \<Rightarrow> bool" where
  "Failed_loop [] = False"
| "Failed_loop (p # ps) = (if failed p then True else Failed_loop ps)"

definition result_Failed :: "TestResult \<Rightarrow> bool" where
  "result_Failed r = Failed_loop (test_part_results r)"

definition result_Passed :: "TestResult \<Rightarrow> bool" where
  "result_Passed r \<longleftrightarrow> \<not> result_Failed r"

definition HasFatalFailure :: "TestResult \<Rightarrow> bool" where
  "HasFatalFailure r \<longleftrightarrow> CountIf fatally_failed (test_part_results r) > 0"

definition HasNonfatalFailure :: "TestResult \<Rightarrow> bool" where
  "HasNonfatalFailure r \<longleftrightarrow> CountIf nonfatally_failed (test_part_results r) > 0"

section \<open>Properties of a result\<close>

definition kReservedTestSuitesAttributes :: "string list" where
  "kReservedTestSuitesAttributes =
     [''disabled'', ''errors'', ''failures'', ''name'', ''random_seed'', ''tests'', ''time'', ''timestamp'']"

definition kReservedTestSuiteAttributes :: "string list" where
  "kReservedTestSuiteAttributes = [''disabled'', ''errors'', ''failures'', ''name'', ''tests'', ''time'']"

definition kReservedTestCaseAttributes :: "string list" where
  "kReservedTestCaseAttributes = [''classname'', ''name'', ''status'', ''time'', ''type_param'', ''value_param'']"

definition GetReservedAttributesForElement :: "string \<Rightarrow> string list option" where
  "GetReservedAttributesForElement xml_element =
     (if xml_element = ''testsuites'' then Some kReservedTestSuitesAttributes
      else if xml_element = ''testsuite'' then Some kReservedTestSuiteAttributes
      else if xml_element = ''testcase'' then Some kReservedTestCaseAttributes
      else None)"

fun FormatWordList_loop :: "nat \<Rightarrow> nat \<Rightarrow> string list \<Rightarrow> string" where
  "FormatWordList_loop i n [] = []"
| "FormatWordList_loop i n (w # ws) =
     (if i > 0 \<and> n > 2 then '', '' else []) @ (if i = n - 1 then ''and '' else []) @
     [CHR 0x27] @ w @ [CHR 0x27] @ FormatWordList_loop (i + 1) n ws"

definition FormatWordList :: "string list \<Rightarrow> string" where
  "FormatWordList words = FormatWordList_loop 0 (length words) words"

text \<open>The failure that is added for a reserved name, or \<open>None\<close> when the name is valid.\<close>

definition ValidateTestPropertyName :: "string \<Rightarrow> string list \<Rightarrow> string option" where
  "ValidateTestPropertyName property_name reserved_names =
     (if property_name \<in> set reserved_names then
        Some (''Reserved key used in RecordProperty(): '' @ property_name @ '' ('' @ FormatWordList reserved_names @
              '' are reserved by '' @ ''Google Test'' @ '')'')
      else None)"

definition TestResult_RecordProperty :: "TestProperty \<Rightarrow> TestResult \<Rightarrow> TestResult" where
  "TestResult_RecordProperty p r =
     (if find (\<lambda>q. c_str (prop_key q) = c_str (prop_key p)) (test_properties r) = None
      then r\<lparr>test_properties := test_properties r @ [p]\<rparr>
      else
        (let i = length (takeWhile (\<lambda>q. c_str (prop_key q) \<noteq> c_str (prop_key p)) (test_properties r))
         in r\<lparr>test_properties := (test_properties r)[i := (test_properties r ! i)\<lparr>prop_value := c_str (prop_value p)\<rparr>]\<rparr>))"

section \<open>Tests\<close>

record TestInfo =
  ti_test_case_name :: string
  ti_name :: string
  ti_type_param :: "string option"
  ti_value_param :: "string option"
  fixture_class_id :: nat
  ti_should_run :: bool
  is_disabled :: bool
  matches_filter :: bool
  factory :: nat
  ti_result :: TestResult

definition TestInfo_new :: "string \<Rightarrow> string \<Rightarrow> string option \<Rightarrow> string option \<Rightarrow> nat \<Rightarrow> nat \<Rightarrow> TestInfo" where
  "TestInfo_new a_test_case_name a_name a_type_param a_value_param a_fixture_class_id a_factory =
     \<lparr>ti_test_case_name = a_test_case_name, ti_name = a_name, ti_type_param = a_type_param,
      ti_value_param = a_value_param, fixture_class_id = a_fixture_class_id, ti_should_run = False,
      is_disabled = False, matches_filter = False, factory = a_factory, ti_result = TestResult_new\<rparr>"

definition is_reportable :: "TestInfo \<Rightarrow> bool" where
  "is_reportable t = matches_filter t"

definition ClearTestResult :: "TestInfo \<Rightarrow> TestInfo" where
  "ClearTestResult t = t\<lparr>ti_result := TestResult_Clear (ti_result t)\<rparr>"

definition TestPassed :: "TestInfo \<Rightarrow> bool" where
  "TestPassed t \<longleftrightarrow> ti_should_run t \<and> result_Passed (ti_result t)"

definition TestFailed :: "TestInfo \<Rightarrow> bool" where
  "TestFailed t \<longleftrightarrow> ti_should_run t \<and> result_Failed (ti_result t)"

definition TestReportableDisabled :: "TestInfo \<Rightarrow> bool" where
  "TestReportableDisabled t \<longleftrightarrow> is_reportable t \<and> is_disabled t"

definition TestDisabled :: "TestInfo \<Rightarrow> bool" where
  "TestDisabled t = is_disabled t"

definition TestReportable :: "TestInfo \<Rightarrow> bool" where
  "TestReportable t = is_reportable t"

definition ShouldRunTest :: "TestInfo \<Rightarrow> bool" where
  "ShouldRunTest t = ti_should_run t"

section \<open>Test cases\<close>

record TestCase =
  tc_name :: string
  tc_type_param :: "string option"
  test_info_list :: "TestInfo list"
  test_indices :: "int list"
  set_up_tc :: nat
  tear_down_tc :: nat
  tc_should_run :: bool
  tc_elapsed_time :: int
  tc_ad_hoc_test_result :: TestResult

definition TestCase_new :: "string \<Rightarrow> string option \<Rightarrow> nat \<Rightarrow> nat \<Rightarrow> TestCase" where
  "TestCase_new a_name a_type_param a_set_up_tc a_tear_down_tc =
     \<lparr>tc_name = a_name, tc_type_param = a_type_param, test_info_list = [], test_indices = [],
      set_up_tc = a_set_up_tc, tear_down_tc = a_tear_down_tc, tc_should_run = False, tc_elapsed_time = 0,
      tc_ad_hoc_test_result = TestResult_new\<rparr>"

definition successful_test_count :: "TestCase \<Rightarrow> nat" where
  "successful_test_count tc = CountIf TestPassed (test_info_list tc)"

definition failed_test_count :: "TestCase \<Rightarrow> nat" where
  "failed_test_count tc = CountIf TestFailed (test_info_list tc)"

definition reportable_disabled_test_count :: "TestCase \<Rightarrow> nat" where
  "reportable_disabled_test_count tc = CountIf TestReportableDisabled (test_info_list tc)"

definition disabled_test_count :: "TestCase \<Rightarrow> nat" where
  "disabled_test_count tc = CountIf TestDisabled (test_info_list tc)"

definition reportable_test_count :: "TestCase \<Rightarrow> nat" where
  "reportable_test_count tc = CountIf TestReportable (test_info_list tc)"

definition test_to_run_count :: "TestCase \<Rightarrow> nat" where
  "test_to_run_count tc = CountIf ShouldRunTest (test_info_list tc)"

definition total_test_count :: "TestCase \<Rightarrow> nat" where
  "total_test_count tc = length (test_info_list tc)"

definition case_Failed :: "TestCase \<Rightarrow> bool" where
  "case_Failed tc \<longleftrightarrow> failed_test_count tc > 0"

definition case_Passed :: "TestCase \<Rightarrow> bool" where
  "case_Passed tc \<longleftrightarrow> \<not> case_Failed tc"

definition GetTestInfo :: "TestCase \<Rightarrow> int \<Rightarrow> TestInfo option" where
  "GetTestInfo tc i =
     (let index = GetElementOr (test_indices tc) i (- 1)
      in if index < 0 then None else Some (test_info_list tc ! nat index))"

text \<open>The same for a caller that changes the test: its place in the list.\<close>

definition GetMutableTestInfo :: "TestCase \<Rightarrow> int \<Rightarrow> nat option" where
  "GetMutableTestInfo tc i =
     (let index = GetElementOr (test_indices tc) i (- 1) in if index < 0 then None else Some (nat index))"

definition case_AddTestInfo :: "TestInfo \<Rightarrow> TestCase \<Rightarrow> TestCase" where
  "case_AddTestInfo t tc =
     tc\<lparr>test_info_list := test_info_list tc @ [t], test_indices := test_indices tc @ [int (length (test_indices tc))]\<rparr>"

definition ClearResult :: "TestCase \<Rightarrow> TestCase" where
  "ClearResult tc =
     tc\<lparr>tc_ad_hoc_test_result := TestResult_Clear (tc_ad_hoc_test_result tc),
        test_info_list := map ClearTestResult (test_info_list tc)\<rparr>"

definition case_ShuffleTests :: "TestCase \<Rightarrow> u32 \<Rightarrow> (TestCase \<times> u32) option" where
  "case_ShuffleTests tc st =
     (case Shuffle (test_indices tc) st of
        None \<Rightarrow> None
      | Some (v, st) \<Rightarrow> Some (tc\<lparr>test_indices := v\<rparr>, st))"

definition case_UnshuffleTests :: "TestCase \<Rightarrow> TestCase" where
  "case_UnshuffleTests tc = tc\<lparr>test_indices := map int [0..<length (test_indices tc)]\<rparr>"

definition set_should_run :: "bool \<Rightarrow> TestCase \<Rightarrow> TestCase" where
  "set_should_run should tc = tc\<lparr>tc_should_run := should\<rparr>"

section \<open>Facts about results\<close>

lemma CountIf_pos [simp]: "0 < CountIf P xs \<longleftrightarrow> (\<exists>x\<in>set xs. P x)"
  by (auto simp: CountIf_def filter_empty_conv)

lemma Failed_loop_iff: "Failed_loop ps \<longleftrightarrow> (\<exists>p\<in>set ps. failed p)"
  by (induction ps) auto

lemma result_Failed_iff: "result_Failed r \<longleftrightarrow> (\<exists>p\<in>set (test_part_results r). failed p)"
  by (simp add: result_Failed_def Failed_loop_iff)

lemma failed_kinds: "failed p \<longleftrightarrow> fatally_failed p \<or> nonfatally_failed p"
  by (cases "tpr_type p") (auto simp: failed_def fatally_failed_def nonfatally_failed_def)

text \<open>
  The tests of a test case are counted without overlap: those that should run are the
  passed and the failed ones.
\<close>

lemma counts_partition: "successful_test_count tc + failed_test_count tc = test_to_run_count tc"
proof -
  have "length (filter TestPassed ts) + length (filter TestFailed ts) = length (filter ShouldRunTest ts)" for ts
    by (induction ts) (auto simp: TestPassed_def TestFailed_def ShouldRunTest_def result_Passed_def)
  then show ?thesis by (simp add: successful_test_count_def failed_test_count_def test_to_run_count_def CountIf_def)
qed

text \<open>Recording a property: one value per key, the last one recorded.\<close>

definition property_map :: "TestResult \<Rightarrow> string \<rightharpoonup> string" where
  "property_map r = map_of (map (\<lambda>p. (c_str (prop_key p), c_str (prop_value p))) (test_properties r))"

definition distinct_keys :: "TestResult \<Rightarrow> bool" where
  "distinct_keys r \<longleftrightarrow> distinct (map (\<lambda>p. c_str (prop_key p)) (test_properties r))"

lemma c_str_idem [simp]: "c_str (c_str s) = c_str s"
  by (simp add: c_str_def)

lemma property_update:
  fixes k v :: string
  defines "kv \<equiv> \<lambda>p. (c_str (prop_key p), c_str (prop_value p))"
  assumes "\<exists>q\<in>set ps. c_str (prop_key q) = k"
  defines "i \<equiv> length (takeWhile (\<lambda>q. c_str (prop_key q) \<noteq> k) ps)"
  shows "map (\<lambda>p. c_str (prop_key p)) (ps[i := (ps ! i)\<lparr>prop_value := v\<rparr>]) = map (\<lambda>p. c_str (prop_key p)) ps"
    "map_of (map kv (ps[i := (ps ! i)\<lparr>prop_value := v\<rparr>])) = (map_of (map kv ps))(k \<mapsto> c_str v)"
proof -
  have "map (\<lambda>p. c_str (prop_key p)) (ps[i := (ps ! i)\<lparr>prop_value := v\<rparr>]) = map (\<lambda>p. c_str (prop_key p)) ps \<and>
    map_of (map kv (ps[i := (ps ! i)\<lparr>prop_value := v\<rparr>])) = (map_of (map kv ps))(k \<mapsto> c_str v)"
    using assms(2) unfolding i_def
  proof (induction ps)
    case (Cons a ps)
    then show ?case by (cases "c_str (prop_key a) = k") (simp_all add: kv_def fun_eq_iff)
  qed simp
  then show "map (\<lambda>p. c_str (prop_key p)) (ps[i := (ps ! i)\<lparr>prop_value := v\<rparr>]) = map (\<lambda>p. c_str (prop_key p)) ps"
    "map_of (map kv (ps[i := (ps ! i)\<lparr>prop_value := v\<rparr>])) = (map_of (map kv ps))(k \<mapsto> c_str v)" by simp_all
qed

lemma RecordProperty_update:
  assumes "distinct_keys r"
  shows "distinct_keys (TestResult_RecordProperty p r)"
    "property_map (TestResult_RecordProperty p r) = (property_map r)(c_str (prop_key p) \<mapsto> c_str (prop_value p))"
proof -
  let ?ps = "test_properties r" and ?k = "c_str (prop_key p)"
  have f: "find (\<lambda>q. c_str (prop_key q) = ?k) ?ps = None \<longleftrightarrow> \<not> (\<exists>q\<in>set ?ps. c_str (prop_key q) = ?k)"
    by (auto simp: find_None_iff)
  show "distinct_keys (TestResult_RecordProperty p r)"
    using assms property_update(1) [of ?ps ?k "c_str (prop_value p)"] f
    by (auto simp: TestResult_RecordProperty_def distinct_keys_def Let_def)
  show "property_map (TestResult_RecordProperty p r) = (property_map r)(?k \<mapsto> c_str (prop_value p))"
  proof (cases "\<exists>q\<in>set ?ps. c_str (prop_key q) = ?k")
    case True
    then have "find (\<lambda>q. c_str (prop_key q) = ?k) ?ps \<noteq> None" using f by blast
    then show ?thesis using property_update(2) [OF True, of "c_str (prop_value p)"]
      by (simp del: not_None_eq add: TestResult_RecordProperty_def property_map_def Let_def)
  next
    case False
    then have "map_of (map (\<lambda>p. (c_str (prop_key p), c_str (prop_value p))) ?ps) ?k = None"
      by (auto simp: map_of_eq_None_iff)
    then show ?thesis using False f
      by (auto simp: TestResult_RecordProperty_def property_map_def map_add_def fun_eq_iff split: option.split)
  qed
qed

text \<open>
  A summary holds no stack trace, and is the message when there is none.
\<close>

lemma before_strstr_prefix: "before_strstr n s = Some p \<Longrightarrow> \<exists>t. s = p @ n @ t"
proof (induction s arbitrary: p)
  case (Cons c s)
  show ?case
  proof (cases "take (length n) (c # s) = n")
    case True
    then show ?thesis using Cons(2) append_take_drop_id [of "length n" "c # s"] by (metis append_Nil before_strstr.simps(2) option.inject)
  next
    case False
    then show ?thesis using Cons by auto
  qed
qed (auto split: if_splits)

lemma unknown_file_not_printable:
  "show_TestPartResult (TestPartResult_new type None line_number message) = None"
  by (simp add: show_TestPartResult_def file_name_def TestPartResult_new_def)

end
