(* ===== verification/Gtest_Registry.thy ===== *)
theory Gtest_Registry
  imports Gtest_Result
begin

text \<open>
  The registry of tests in \<open>UnitTestImpl\<close> (\<open>gtest-internal-inl.h\<close>, \<open>gtest.cc\<close>): registration,
  the selection of the tests that run, their order, and the counts over all test cases.

  The vector of test cases is a list, and a test is identified by the places of its test case
  and of itself in registration order.
\<close>

section \<open>State\<close>

record TraceInfo =
  trace_file :: "string option"
  trace_line :: int
  trace_message :: string

text \<open>
  The reporters that are installed for all threads and for the current thread.  The class
  \<open>ScopedFakeTestPartResultReporter\<close> appends to an array, which is named by a number, and
  \<open>HasNewFatalFailureHelper\<close> passes the result on to the reporter it has replaced.
\<close>

datatype GlobalReporter = DefaultGlobal | FakeGlobal nat

datatype ThreadReporter = DefaultPerThread | FakeThread nat | NewFatalHelper nat ThreadReporter

text \<open>The calls of the event repeater, with what they tell about.\<close>

datatype event =
    OnTestProgramStart
  | OnTestIterationStart int
  | OnEnvironmentsSetUpStart
  | OnEnvironmentsSetUpEnd
  | OnTestCaseStart nat
  | OnTestStart nat nat
  | OnTestPartResult TestPartResult
  | OnTestEnd nat nat
  | OnTestCaseEnd nat
  | OnEnvironmentsTearDownStart
  | OnEnvironmentsTearDownEnd
  | OnTestIterationEnd int
  | OnTestProgramEnd

text \<open>
  The functions of the user that the framework calls.  Those of a fixture are named by the
  place of the test, those of a test case and of an environment by their pointer.  The state
  records the calls, the events and the text printed.
\<close>

datatype user_code =
    Constructor nat nat
  | SetUp nat nat
  | TestBody nat nat
  | TearDown nat nat
  | Destructor nat nat
  | SetUpTestCase nat
  | TearDownTestCase nat
  | EnvironmentSetUp nat
  | EnvironmentTearDown nat

record UnitTestImpl =
  original_working_dir :: string
  global_reporter :: GlobalReporter
  thread_reporter :: ThreadReporter
  fake_results :: "nat \<Rightarrow> TestPartResultArray"
  has_new_fatal_failure :: "nat \<Rightarrow> bool"
  environments :: "nat list"
  test_cases :: "TestCase list"
  test_case_indices :: "int list"
  last_death_test_case :: int
  current_test_case :: "nat option"
  current_test_info :: "(nat \<times> nat) option"
  ad_hoc_test_result :: TestResult
  gtest_trace_stack :: "TraceInfo list"
  random_seed :: int
  random_state :: u32
  start_timestamp :: int
  impl_elapsed_time :: int
  impl_catch_exceptions :: bool
  console :: string
  events :: "event list"
  called :: "user_code list"
  time_reads :: nat

definition UnitTestImpl_new :: UnitTestImpl where
  "UnitTestImpl_new =
     \<lparr>original_working_dir = [], global_reporter = DefaultGlobal, thread_reporter = DefaultPerThread,
      fake_results = (\<lambda>_. []), has_new_fatal_failure = (\<lambda>_. False), environments = [], test_cases = [],
      test_case_indices = [], last_death_test_case = - 1, current_test_case = None, current_test_info = None,
      ad_hoc_test_result = TestResult_new, gtest_trace_stack = [], random_seed = 0, random_state = 0,
      start_timestamp = 0, impl_elapsed_time = 0, impl_catch_exceptions = False, console = [], events = [], called = [],
      time_reads = 0\<rparr>"

section \<open>Registration\<close>

definition TestCaseNameIs :: "string \<Rightarrow> TestCase \<Rightarrow> bool" where
  "TestCaseNameIs name tc \<longleftrightarrow> c_str (tc_name tc) = c_str name"

text \<open>
  Finds or creates the test case of a name; the result is its place in the list.  The last
  argument of \<open>insert_at\<close> is the position of the new element.
\<close>

definition insert_at :: "'a list \<Rightarrow> nat \<Rightarrow> 'a \<Rightarrow> 'a list" where
  "insert_at xs n x = take n xs @ [x] @ drop n xs"

definition find_index :: "('a \<Rightarrow> bool) \<Rightarrow> 'a list \<Rightarrow> nat" where
  "find_index P xs = length (takeWhile (\<lambda>x. \<not> P x) xs)"

definition GetTestCase_named ::
  "string \<Rightarrow> string option \<Rightarrow> nat \<Rightarrow> nat \<Rightarrow> UnitTestImpl \<Rightarrow> UnitTestImpl \<times> nat" where
  "GetTestCase_named test_case_name type_param a_set_up_tc a_tear_down_tc s =
     (let i = find_index (TestCaseNameIs test_case_name) (test_cases s)
      in if i < length (test_cases s) then (s, i)
         else
           (let new_test_case = TestCase_new test_case_name type_param a_set_up_tc a_tear_down_tc;
                indices = test_case_indices s @ [int (length (test_case_indices s))]
            in if MatchesFilter test_case_name kDeathTestCaseFilter then
                 (let l = last_death_test_case s + 1
                  in (s\<lparr>last_death_test_case := l, test_cases := insert_at (test_cases s) (nat l) new_test_case,
                        test_case_indices := indices\<rparr>, nat l))
               else
                 (s\<lparr>test_cases := test_cases s @ [new_test_case], test_case_indices := indices\<rparr>,
                  length (test_cases s))))"

text \<open>
  \<open>AddTestInfo\<close>; the current directory is a parameter, empty when it cannot be determined,
  which ends the program.
\<close>

definition AddTestInfo :: "string \<Rightarrow> nat \<Rightarrow> nat \<Rightarrow> TestInfo \<Rightarrow> UnitTestImpl \<Rightarrow> UnitTestImpl option" where
  "AddTestInfo current_dir a_set_up_tc a_tear_down_tc test_info s =
     (let s = (if original_working_dir s = [] then s\<lparr>original_working_dir := current_dir\<rparr> else s)
      in if original_working_dir s = [] then None
         else
           (let (s, i) = GetTestCase_named (c_str (ti_test_case_name test_info)) (map_option c_str (ti_type_param test_info))
                  a_set_up_tc a_tear_down_tc s
            in Some (s\<lparr>test_cases := (test_cases s)[i := case_AddTestInfo test_info (test_cases s ! i)]\<rparr>)))"

definition MakeAndRegisterTestInfo ::
  "string \<Rightarrow> string \<Rightarrow> string \<Rightarrow> string option \<Rightarrow> string option \<Rightarrow> nat \<Rightarrow> nat \<Rightarrow> nat \<Rightarrow> nat
     \<Rightarrow> UnitTestImpl \<Rightarrow> UnitTestImpl option" where
  "MakeAndRegisterTestInfo current_dir test_case_name name type_param value_param a_fixture_class_id a_set_up_tc
       a_tear_down_tc a_factory s =
     AddTestInfo current_dir a_set_up_tc a_tear_down_tc
       (TestInfo_new test_case_name name type_param value_param a_fixture_class_id a_factory) s"

section \<open>Access and counts\<close>

text \<open>The method for readers: the index is only compared with zero.\<close>

definition GetTestCase :: "UnitTestImpl \<Rightarrow> int \<Rightarrow> TestCase option" where
  "GetTestCase s i =
     (let index = GetElementOr (test_case_indices s) i (- 1)
      in if index < 0 then None else Some (test_cases s ! nat i))"

definition GetMutableTestCase :: "UnitTestImpl \<Rightarrow> int \<Rightarrow> nat option" where
  "GetMutableTestCase s i =
     (let index = GetElementOr (test_case_indices s) i (- 1) in if index < 0 then None else Some (nat index))"

definition TestCasePassed :: "TestCase \<Rightarrow> bool" where
  "TestCasePassed tc \<longleftrightarrow> tc_should_run tc \<and> case_Passed tc"

definition TestCaseFailed :: "TestCase \<Rightarrow> bool" where
  "TestCaseFailed tc \<longleftrightarrow> tc_should_run tc \<and> case_Failed tc"

definition ShouldRunTestCase :: "TestCase \<Rightarrow> bool" where
  "ShouldRunTestCase tc = tc_should_run tc"

definition SumOverTestCaseList :: "TestCase list \<Rightarrow> (TestCase \<Rightarrow> nat) \<Rightarrow> nat" where
  "SumOverTestCaseList tcs method = foldl (\<lambda>sum tc. sum + method tc) 0 tcs"

definition impl_successful_test_case_count :: "UnitTestImpl \<Rightarrow> nat" where
  "impl_successful_test_case_count s = CountIf TestCasePassed (test_cases s)"

definition impl_failed_test_case_count :: "UnitTestImpl \<Rightarrow> nat" where
  "impl_failed_test_case_count s = CountIf TestCaseFailed (test_cases s)"

definition impl_total_test_case_count :: "UnitTestImpl \<Rightarrow> nat" where
  "impl_total_test_case_count s = length (test_cases s)"

definition impl_test_case_to_run_count :: "UnitTestImpl \<Rightarrow> nat" where
  "impl_test_case_to_run_count s = CountIf ShouldRunTestCase (test_cases s)"

definition impl_successful_test_count :: "UnitTestImpl \<Rightarrow> nat" where
  "impl_successful_test_count s = SumOverTestCaseList (test_cases s) successful_test_count"

definition impl_failed_test_count :: "UnitTestImpl \<Rightarrow> nat" where
  "impl_failed_test_count s = SumOverTestCaseList (test_cases s) failed_test_count"

definition impl_reportable_disabled_test_count :: "UnitTestImpl \<Rightarrow> nat" where
  "impl_reportable_disabled_test_count s = SumOverTestCaseList (test_cases s) reportable_disabled_test_count"

definition impl_disabled_test_count :: "UnitTestImpl \<Rightarrow> nat" where
  "impl_disabled_test_count s = SumOverTestCaseList (test_cases s) disabled_test_count"

definition impl_reportable_test_count :: "UnitTestImpl \<Rightarrow> nat" where
  "impl_reportable_test_count s = SumOverTestCaseList (test_cases s) reportable_test_count"

definition impl_total_test_count :: "UnitTestImpl \<Rightarrow> nat" where
  "impl_total_test_count s = SumOverTestCaseList (test_cases s) total_test_count"

definition impl_test_to_run_count :: "UnitTestImpl \<Rightarrow> nat" where
  "impl_test_to_run_count s = SumOverTestCaseList (test_cases s) test_to_run_count"

definition impl_Failed :: "UnitTestImpl \<Rightarrow> bool" where
  "impl_Failed s \<longleftrightarrow> impl_failed_test_case_count s > 0 \<or> result_Failed (ad_hoc_test_result s)"

definition impl_Passed :: "UnitTestImpl \<Rightarrow> bool" where
  "impl_Passed s \<longleftrightarrow> \<not> impl_Failed s"

definition ClearNonAdHocTestResult :: "UnitTestImpl \<Rightarrow> UnitTestImpl" where
  "ClearNonAdHocTestResult s = s\<lparr>test_cases := map ClearResult (test_cases s)\<rparr>"

definition ClearAdHocTestResult :: "UnitTestImpl \<Rightarrow> UnitTestImpl" where
  "ClearAdHocTestResult s = s\<lparr>ad_hoc_test_result := TestResult_Clear (ad_hoc_test_result s)\<rparr>"

section \<open>Selection\<close>

text \<open>
  The loops of \<open>FilterTests\<close>.  \<open>shard\<close> holds the number of shards and the index of this one
  when the protocol for sharding is honoured; the counters are of the tests that can run on
  some shard and of those selected for this one.
\<close>

definition filter_test ::
  "gtest_flags \<Rightarrow> (int \<times> int) option \<Rightarrow> string \<Rightarrow> TestInfo \<Rightarrow> nat \<times> nat \<Rightarrow> TestInfo \<times> nat \<times> nat" where
  "filter_test fl shard test_case_name t counts =
     (case counts of (num_runnable_tests, num_selected_tests) \<Rightarrow>
        (let test_name = c_str (ti_name t);
             disabled = MatchesFilter test_case_name kDisableTestFilter \<or> MatchesFilter test_name kDisableTestFilter;
             matches = FilterMatchesTest fl test_case_name test_name;
             is_runnable = (also_run_disabled_tests fl \<or> \<not> disabled) \<and> matches;
             is_selected = is_runnable \<and>
               (case shard of
                  None \<Rightarrow> True
                | Some (total_shards, shard_index) \<Rightarrow>
                    ShouldRunTestOnShard total_shards shard_index (int num_runnable_tests))
         in (t\<lparr>is_disabled := disabled, matches_filter := matches, ti_should_run := is_selected\<rparr>,
             num_runnable_tests + of_bool is_runnable, num_selected_tests + of_bool is_selected)))"

fun filter_test_list ::
  "gtest_flags \<Rightarrow> (int \<times> int) option \<Rightarrow> string \<Rightarrow> TestInfo list \<Rightarrow> nat \<times> nat \<Rightarrow> TestInfo list \<times> nat \<times> nat" where
  "filter_test_list fl shard n [] counts = ([], counts)"
| "filter_test_list fl shard n (t # ts) counts =
     (let (t, counts) = filter_test fl shard n t counts;
          (ts, counts) = filter_test_list fl shard n ts counts
      in (t # ts, counts))"

definition filter_case ::
  "gtest_flags \<Rightarrow> (int \<times> int) option \<Rightarrow> TestCase \<Rightarrow> nat \<times> nat \<Rightarrow> TestCase \<times> nat \<times> nat" where
  "filter_case fl shard tc counts =
     (let (ts, counts) = filter_test_list fl shard (c_str (tc_name tc)) (test_info_list tc) counts
      in (set_should_run (\<exists>t\<in>set ts. ti_should_run t) (tc\<lparr>test_info_list := ts\<rparr>), counts))"

fun filter_case_list ::
  "gtest_flags \<Rightarrow> (int \<times> int) option \<Rightarrow> TestCase list \<Rightarrow> nat \<times> nat \<Rightarrow> TestCase list \<times> nat \<times> nat" where
  "filter_case_list fl shard [] counts = ([], counts)"
| "filter_case_list fl shard (tc # tcs) counts =
     (let (tc, counts) = filter_case fl shard tc counts;
          (tcs, counts) = filter_case_list fl shard tcs counts
      in (tc # tcs, counts))"

datatype ReactionToSharding = HONOR_SHARDING_PROTOCOL | IGNORE_SHARDING_PROTOCOL

text \<open>
  A total of zero shards leads to a remainder by zero at the first test that can run; it is
  \<open>None\<close>, as is a variable that is not an integer.
\<close>

definition FilterTests :: "gtest_flags \<Rightarrow> env \<Rightarrow> ReactionToSharding \<Rightarrow> UnitTestImpl \<Rightarrow> (UnitTestImpl \<times> nat) option" where
  "FilterTests fl env shard_tests s =
     (let run = (\<lambda>shard. let (tcs, _, num_selected_tests) = filter_case_list fl shard (test_cases s) (0, 0)
                         in (s\<lparr>test_cases := tcs\<rparr>, num_selected_tests))
      in case shard_tests of
           IGNORE_SHARDING_PROTOCOL \<Rightarrow> Some (run None)
         | HONOR_SHARDING_PROTOCOL \<Rightarrow>
             (case Int32FromEnvOrDie env kTestTotalShards (- 1) of
                None \<Rightarrow> None
              | Some total_shards \<Rightarrow>
                  (case Int32FromEnvOrDie env kTestShardIndex (- 1) of
                     None \<Rightarrow> None
                   | Some shard_index \<Rightarrow> if total_shards = 0 then None else Some (run (Some (total_shards, shard_index))))))"

section \<open>Order\<close>

fun shuffle_cases :: "TestCase list \<Rightarrow> u32 \<Rightarrow> (TestCase list \<times> u32) option" where
  "shuffle_cases [] st = Some ([], st)"
| "shuffle_cases (tc # tcs) st =
     (case case_ShuffleTests tc st of
        None \<Rightarrow> None
      | Some (tc, st) \<Rightarrow>
          (case shuffle_cases tcs st of None \<Rightarrow> None | Some (tcs, st) \<Rightarrow> Some (tc # tcs, st)))"

definition ShuffleTests :: "UnitTestImpl \<Rightarrow> UnitTestImpl option" where
  "ShuffleTests s =
     (case ShuffleRange 0 (last_death_test_case s + 1) (test_case_indices s) (random_state s) of
        None \<Rightarrow> None
      | Some (v, st) \<Rightarrow>
          (case ShuffleRange (last_death_test_case s + 1) (cast_int32 (int (length (test_cases s)))) v st of
             None \<Rightarrow> None
           | Some (v, st) \<Rightarrow>
               (case shuffle_cases (test_cases s) st of
                  None \<Rightarrow> None
                | Some (tcs, st) \<Rightarrow>
                    Some (s\<lparr>test_case_indices := v, test_cases := tcs, random_state := st\<rparr>))))"

text \<open>
  The loop of \<open>UnshuffleTests\<close> runs over the test cases and writes the same positions of the
  indices, of which there are as many.
\<close>

definition UnshuffleTests :: "UnitTestImpl \<Rightarrow> UnitTestImpl" where
  "UnshuffleTests s =
     s\<lparr>test_cases := map case_UnshuffleTests (test_cases s),
       test_case_indices :=
         map int [0..<length (test_cases s)] @ drop (length (test_cases s)) (test_case_indices s)\<rparr>"

section \<open>What registration builds\<close>

inductive registered :: "TestInfo list \<Rightarrow> UnitTestImpl \<Rightarrow> bool" where
  start: "registered [] UnitTestImpl_new"
| add: "registered ts s \<Longrightarrow> AddTestInfo current_dir u d t s = Some s' \<Longrightarrow> registered (ts @ [t]) s'"

abbreviation case_of :: "TestInfo \<Rightarrow> string" where
  "case_of t \<equiv> c_str (ti_test_case_name t)"

abbreviation death_test_case :: "string \<Rightarrow> bool" where
  "death_test_case n \<equiv> MatchesFilter n kDeathTestCaseFilter"

definition indices_ok :: "TestCase \<Rightarrow> bool" where
  "indices_ok tc \<longleftrightarrow> test_indices tc = map int [0..<length (test_info_list tc)]"

definition registry_inv :: "TestInfo list \<Rightarrow> UnitTestImpl \<Rightarrow> bool" where
  "registry_inv ts s \<longleftrightarrow>
     distinct (map tc_name (test_cases s)) \<and> tc_name ` set (test_cases s) = case_of ` set ts \<and>
     (\<forall>tc\<in>set (test_cases s). test_info_list tc = filter (\<lambda>t. case_of t = tc_name tc) ts \<and> indices_ok tc) \<and>
     test_case_indices s = map int [0..<length (test_cases s)] \<and>
     - 1 \<le> last_death_test_case s \<and> last_death_test_case s < int (length (test_cases s)) \<and>
     (\<forall>i<length (test_cases s). death_test_case (tc_name (test_cases s ! i)) \<longleftrightarrow> int i \<le> last_death_test_case s)"

lemma find_index_less: "find_index P xs < length xs \<longleftrightarrow> (\<exists>x\<in>set xs. P x)"
  by (induction xs) (auto simp: find_index_def)

lemma find_index_nth: "find_index P xs < length xs \<Longrightarrow> P (xs ! find_index P xs)"
  by (induction xs) (auto simp: find_index_def)

lemma set_insert_at [simp]: "set (insert_at xs n x) = insert x (set xs)"
  by (simp add: insert_at_def) (metis append_take_drop_id set_append)

lemma length_insert_at [simp]: "length (insert_at xs n x) = Suc (length xs)"
  by (simp add: insert_at_def)

lemma distinct_insert_at: "distinct (map f (insert_at xs n x)) \<longleftrightarrow> f x \<notin> f ` set xs \<and> distinct (map f xs)"
proof -
  have "mset (map f (insert_at xs n x)) = mset (f x # map f xs)"
    by (simp add: insert_at_def) (metis append_take_drop_id image_mset_union mset_append)
  then have "distinct (map f (insert_at xs n x)) \<longleftrightarrow> distinct (f x # map f xs)" by (rule mset_eq_imp_distinct_iff)
  then show ?thesis by simp
qed

lemma nth_insert_at:
  assumes "n \<le> length xs"
  shows "insert_at xs n x ! i = (if i < n then xs ! i else if i = n then x else xs ! (i - 1))"
  using assms by (auto simp: insert_at_def nth_append nth_Cons' min_def)

definition registry_with :: "TestInfo list \<Rightarrow> string \<Rightarrow> UnitTestImpl \<Rightarrow> bool" where
  "registry_with ts n s \<longleftrightarrow>
     distinct (map tc_name (test_cases s)) \<and> tc_name ` set (test_cases s) = insert n (case_of ` set ts) \<and>
     (\<forall>tc\<in>set (test_cases s). test_info_list tc = filter (\<lambda>t. case_of t = tc_name tc) ts \<and> indices_ok tc) \<and>
     test_case_indices s = map int [0..<length (test_cases s)] \<and>
     - 1 \<le> last_death_test_case s \<and> last_death_test_case s < int (length (test_cases s)) \<and>
     (\<forall>i<length (test_cases s). death_test_case (tc_name (test_cases s ! i)) \<longleftrightarrow> int i \<le> last_death_test_case s)"

lemma GetTestCase_named_inv:
  assumes inv: "registry_inv ts s" and n: "c_str n = n" and g: "GetTestCase_named n p u d s = (s', i)"
  shows "registry_with ts n s' \<and> i < length (test_cases s') \<and> tc_name (test_cases s' ! i) = n"
proof (cases "n \<in> case_of ` set ts")
  case True
  then have ex: "\<exists>tc\<in>set (test_cases s). TestCaseNameIs n tc" using inv
    by (auto simp: registry_inv_def TestCaseNameIs_def n) (metis c_str_idem imageE imageI)
  then have l: "find_index (TestCaseNameIs n) (test_cases s) < length (test_cases s)" by (simp add: find_index_less)
  then have s: "s' = s" "i = find_index (TestCaseNameIs n) (test_cases s)" using g by (auto simp: GetTestCase_named_def)
  have "tc_name (test_cases s ! i) \<in> case_of ` set ts" using l s inv by (auto simp: registry_inv_def)
  then have "c_str (tc_name (test_cases s ! i)) = tc_name (test_cases s ! i)" by auto
  then have "tc_name (test_cases s ! i) = n" using find_index_nth [OF l] s n by (simp add: TestCaseNameIs_def)
  then show ?thesis using inv True s l by (simp add: registry_inv_def registry_with_def insert_absorb)
next
  case False
  have "c_str (tc_name tc) = tc_name tc" "tc_name tc \<noteq> n" if "tc \<in> set (test_cases s)" for tc
  proof -
    have "tc_name tc \<in> case_of ` set ts" using that inv by (auto simp: registry_inv_def)
    then show "c_str (tc_name tc) = tc_name tc" "tc_name tc \<noteq> n" using False by auto
  qed
  note old = this
  then have l: "\<not> find_index (TestCaseNameIs n) (test_cases s) < length (test_cases s)"
    by (auto simp: find_index_less TestCaseNameIs_def n)
  let ?new = "TestCase_new n p u d"
  have new: "tc_name ?new = n" "test_info_list ?new = filter (\<lambda>t. case_of t = n) ts" "indices_ok ?new"
    using False by (auto simp: TestCase_new_def indices_ok_def filter_empty_conv eq_commute [of "[]"])
  show ?thesis
  proof (cases "death_test_case n")
    case True
    let ?l = "last_death_test_case s + 1"
    have le: "nat ?l \<le> length (test_cases s)" "0 \<le> ?l" using inv by (auto simp: registry_inv_def)
    have s: "s' = s\<lparr>last_death_test_case := ?l, test_cases := insert_at (test_cases s) (nat ?l) ?new,
        test_case_indices := test_case_indices s @ [int (length (test_case_indices s))]\<rparr>" "i = nat ?l"
      using g l True by (auto simp: GetTestCase_named_def Let_def)
    have d: "death_test_case (tc_name (insert_at (test_cases s) (nat ?l) ?new ! j)) \<longleftrightarrow> int j \<le> ?l"
      if "j < Suc (length (test_cases s))" for j
    proof -
      have "death_test_case (tc_name (test_cases s ! k)) \<longleftrightarrow> int k \<le> last_death_test_case s" if "k < length (test_cases s)" for k
        using inv that by (auto simp: registry_inv_def)
      from this [of j] this [of "j - 1"] show ?thesis using that le True by (auto simp: nth_insert_at new)
    qed
    have "distinct (map tc_name (insert_at (test_cases s) (nat ?l) ?new))"
      using inv False new by (simp add: distinct_insert_at registry_inv_def)
    then show ?thesis using inv d le new s by (simp add: registry_inv_def registry_with_def nth_insert_at)
  next
    case d: False
    have s: "s' = s\<lparr>test_cases := test_cases s @ [?new],
        test_case_indices := test_case_indices s @ [int (length (test_case_indices s))]\<rparr>" "i = length (test_cases s)"
      using g l d by (auto simp: GetTestCase_named_def Let_def)
    have "distinct (map tc_name (test_cases s @ [?new]))" using inv False new by (simp add: registry_inv_def)
    moreover have "death_test_case (tc_name ((test_cases s @ [?new]) ! j)) \<longleftrightarrow> int j \<le> last_death_test_case s"
      if "j < Suc (length (test_cases s))" for j
      using that inv d new by (auto simp: registry_inv_def nth_append less_Suc_eq)
    ultimately show ?thesis using inv new s by (simp add: registry_inv_def registry_with_def)
  qed
qed

lemma AddTestInfo_inv:
  assumes inv: "registry_inv ts s" and a: "AddTestInfo current_dir u d t s = Some s'"
  shows "registry_inv (ts @ [t]) s'"
proof -
  define s1 where "s1 = (if original_working_dir s = [] then s\<lparr>original_working_dir := current_dir\<rparr> else s)"
  have inv1: "registry_inv ts s1" using inv by (simp add: s1_def registry_inv_def)
  obtain s2 i where g: "GetTestCase_named (case_of t) (map_option c_str (ti_type_param t)) u d s1 = (s2, i)" by fastforce
  have w: "registry_with ts (case_of t) s2" "i < length (test_cases s2)" "tc_name (test_cases s2 ! i) = case_of t"
    using GetTestCase_named_inv [OF inv1 _ g] by auto
  let ?tc = "case_AddTestInfo t (test_cases s2 ! i)"
  have s': "s' = s2\<lparr>test_cases := (test_cases s2)[i := ?tc]\<rparr>"
    using a g by (auto simp: AddTestInfo_def Let_def s1_def split: if_splits)
  have n: "tc_name ?tc = case_of t" using w(3) by (simp add: case_AddTestInfo_def)
  then have m: "map tc_name ((test_cases s2)[i := ?tc]) = map tc_name (test_cases s2)"
    using w(2,3) by (metis list_update_id map_update)
  then have names: "tc_name ` set ((test_cases s2)[i := ?tc]) = tc_name ` set (test_cases s2)" by (metis list.set_map)
  have nth: "tc_name ((test_cases s2)[i := ?tc] ! j) = tc_name (test_cases s2 ! j)" if "j < length (test_cases s2)" for j
    using arg_cong [OF m, of "\<lambda>l. l ! j"] that by simp
  have tests: "test_info_list tc = filter (\<lambda>u. case_of u = tc_name tc) (ts @ [t]) \<and> indices_ok tc"
    if "tc \<in> set ((test_cases s2)[i := ?tc])" for tc
  proof -
    obtain j where j: "j < length (test_cases s2)" "tc = (test_cases s2)[i := ?tc] ! j"
      using \<open>tc \<in> _\<close> by (auto simp: in_set_conv_nth)
    have o: "test_info_list (test_cases s2 ! j) = filter (\<lambda>u. case_of u = tc_name (test_cases s2 ! j)) ts"
      "indices_ok (test_cases s2 ! j)" using w(1) j(1) by (auto simp: registry_with_def)
    show ?thesis
    proof (cases "j = i")
      case True
      then show ?thesis using o j n w(3) by (simp add: case_AddTestInfo_def indices_ok_def)
    next
      case False
      then have "tc_name (test_cases s2 ! j) \<noteq> tc_name (test_cases s2 ! i)"
        using w(1,2) j(1) by (auto simp: registry_with_def distinct_conv_nth)
      then show ?thesis using o j(2) False w(3) by simp
    qed
  qed
  then show ?thesis using w(1) m names nth by (simp add: registry_inv_def registry_with_def s')
qed

lemma AddTestInfo_total: "current_dir \<noteq> [] \<Longrightarrow> \<exists>s'. AddTestInfo current_dir u d t s = Some s'"
  by (auto simp: AddTestInfo_def Let_def split: prod.split)

lemma registered_inv: "registered ts s \<Longrightarrow> registry_inv ts s"
proof (induction rule: registered.induct)
  case start
  then show ?case by (simp add: registry_inv_def UnitTestImpl_new_def)
next
  case (add ts s current_dir u d t s')
  then show ?case using AddTestInfo_inv by blast
qed

section \<open>What shuffling keeps\<close>

lemma Shuffle_spec:
  assumes "length v < 2 ^ 31"
  shows "\<exists>w st'. Shuffle v st = Some (w, st') \<and> mset w = mset v \<and> length w = length v"
proof -
  have c: "cast_int32 (int (length v)) = int (length v)" using assms by (simp add: cast_int32_id)
  have "Shuffle v st \<noteq> None" using ShuffleRange_spec(1) [OF assms, of 0 "int (length v)" st] by (simp add: Shuffle_def c)
  then obtain w st' where "Shuffle v st = Some (w, st')" by auto
  then show ?thesis using ShuffleRange_spec(2) [OF assms, of 0 "int (length v)" st w st'] by (simp add: Shuffle_def c)
qed

definition reordered :: "TestCase \<Rightarrow> TestCase \<Rightarrow> bool" where
  "reordered tc tc' \<longleftrightarrow> (\<exists>v. mset v = mset (test_indices tc) \<and> tc' = tc\<lparr>test_indices := v\<rparr>)"

lemma shuffle_cases_spec:
  assumes "\<forall>tc\<in>set tcs. length (test_indices tc) < 2 ^ 31"
  shows "\<exists>tcs' st'. shuffle_cases tcs st = Some (tcs', st') \<and> list_all2 reordered tcs tcs'"
  using assms
proof (induction tcs arbitrary: st)
  case (Cons tc tcs)
  obtain w st1 where s: "Shuffle (test_indices tc) st = Some (w, st1)" "mset w = mset (test_indices tc)"
    using Shuffle_spec [of "test_indices tc" st] Cons(2) by auto
  obtain tcs' st' where "shuffle_cases tcs st1 = Some (tcs', st')" "list_all2 reordered tcs tcs'"
    using Cons(1) [of st1] Cons(2) by auto
  moreover have "reordered tc (tc\<lparr>test_indices := w\<rparr>)" using s(2) by (auto simp: reordered_def)
  ultimately show ?case using s(1) by (simp add: case_ShuffleTests_def)
qed simp

lemma reordered_unshuffle:
  assumes "indices_ok tc" "reordered tc tc'"
  shows "case_UnshuffleTests tc' = tc" "tc_name tc' = tc_name tc" "test_info_list tc' = test_info_list tc"
    "mset (test_indices tc') = mset (map int [0..<length (test_info_list tc)])"
proof -
  obtain v where v: "mset v = mset (test_indices tc)" "tc' = tc\<lparr>test_indices := v\<rparr>" using assms(2) by (auto simp: reordered_def)
  then have "length v = length (test_info_list tc)" using assms(1) by (metis indices_ok_def length_map length_upt minus_nat.diff_0 size_mset)
  then show "case_UnshuffleTests tc' = tc" using assms(1) v by (simp add: case_UnshuffleTests_def indices_ok_def)
  show "tc_name tc' = tc_name tc" "test_info_list tc' = test_info_list tc" using v by simp_all
  show "mset (test_indices tc') = mset (map int [0..<length (test_info_list tc)])"
    using v assms(1) by (simp add: indices_ok_def)
qed

lemma length_cases:
  assumes "registry_inv ts s"
  shows "length (test_cases s) \<le> length ts" "\<forall>tc\<in>set (test_cases s). length (test_indices tc) \<le> length ts"
proof -
  have "length (test_cases s) = card (tc_name ` set (test_cases s))"
    using assms by (metis distinct_card length_map list.set_map registry_inv_def)
  also have "\<dots> = card (case_of ` set ts)" using assms by (simp add: registry_inv_def)
  also have "\<dots> \<le> length ts" using card_image_le [of "set ts" case_of] card_length [of ts] by simp
  finally show "length (test_cases s) \<le> length ts" .
  show "\<forall>tc\<in>set (test_cases s). length (test_indices tc) \<le> length ts"
    using assms by (auto simp: registry_inv_def indices_ok_def)
qed

text \<open>The two shuffles of the indices: the death tests, which are \<open>k\<close> many, and the rest.\<close>

lemma shuffle_indices:
  assumes "k \<le> n" "n < 2 ^ 31"
  shows "\<exists>v w st1 st2. ShuffleRange 0 (int k) (map int [0..<n]) st = Some (v, st1) \<and>
     ShuffleRange (int k) (int n) v st1 = Some (w, st2) \<and> mset w = mset (map int [0..<n]) \<and> length w = n \<and>
     (\<forall>i<n. w ! i < int k \<longleftrightarrow> i < k)"
proof -
  let ?u = "map int [0..<n]"
  have u: "length ?u = n" "length ?u < 2 ^ 31" using assms by simp_all
  obtain v st1 where v: "ShuffleRange 0 (int k) ?u st = Some (v, st1)"
    using ShuffleRange_spec(1) [OF u(2), of 0 "int k" st] assms by fastforce
  note v' = ShuffleRange_spec(2) [OF u(2) v]
  have lv: "length v = n" using v' u by simp
  obtain w st2 where w: "ShuffleRange (int k) (int n) v st1 = Some (w, st2)"
    using ShuffleRange_spec(1) [of v "int k" "int n" st1] assms lv by fastforce
  note w' = ShuffleRange_spec(2) [OF _ w] 
  have w'': "mset w = mset v" "length w = n" "take k w = take k v" using w' lv assms by simp_all
  have "mset (take k w) = mset (take k ?u)" using w'' v' by simp
  then have t: "set (take k w) = set (take k ?u)" by (rule mset_eq_setD)
  have "mset (drop k w) = mset (drop k ?u)"
    using w'' v' \<open>mset (take k w) = mset (take k ?u)\<close>
    by (metis add_left_cancel append_take_drop_id mset_append)
  then have d: "set (drop k w) = set (drop k ?u)" by (rule mset_eq_setD)
  have "w ! i < int k \<longleftrightarrow> i < k" if "i < n" for i
  proof (cases "i < k")
    case True
    then have "w ! i \<in> set (take k w)" using w''(2) that by (auto simp: in_set_conv_nth)
    then show ?thesis using t True assms by (auto simp: take_map)
  next
    case False
    then have "w ! i = drop k w ! (i - k)" "i - k < length (drop k w)" using w''(2) that by auto
    then have "w ! i \<in> set (drop k w)" by (metis nth_mem)
    then show ?thesis using d False by (auto simp: drop_map)
  qed
  then show ?thesis using v w w'' v' by auto
qed

text \<open>The order of registration, with sizes that fit the indices of the shuffle.\<close>

definition in_order :: "UnitTestImpl \<Rightarrow> bool" where
  "in_order s \<longleftrightarrow>
     test_case_indices s = map int [0..<length (test_cases s)] \<and> length (test_cases s) < 2 ^ 31 \<and>
     (\<forall>tc\<in>set (test_cases s). indices_ok tc \<and> length (test_indices tc) < 2 ^ 31) \<and>
     - 1 \<le> last_death_test_case s \<and> last_death_test_case s < int (length (test_cases s))"

lemma ShuffleTests_order:
  assumes "in_order s"
  shows "\<exists>w tcs st. ShuffleTests s = Some (s\<lparr>test_case_indices := w, test_cases := tcs, random_state := st\<rparr>) \<and>
     mset w = mset (map int [0..<length (test_cases s)]) \<and>
     (\<forall>j<length (test_cases s). w ! j \<le> last_death_test_case s \<longleftrightarrow> int j \<le> last_death_test_case s) \<and>
     list_all2 reordered (test_cases s) tcs"
proof -
  let ?n = "length (test_cases s)" and ?k = "nat (last_death_test_case s + 1)"
  have n: "?n < 2 ^ 31" and i: "test_case_indices s = map int [0..<?n]" "int ?k = last_death_test_case s + 1" "?k \<le> ?n"
    using assms by (auto simp: in_order_def)
  obtain v w st1 st2 where vw: "ShuffleRange 0 (int ?k) (map int [0..<?n]) (random_state s) = Some (v, st1)"
    "ShuffleRange (int ?k) (int ?n) v st1 = Some (w, st2)" "mset w = mset (map int [0..<?n])" "length w = ?n"
    "\<forall>j<?n. w ! j < int ?k \<longleftrightarrow> j < ?k"
    using shuffle_indices [OF i(3) n] by blast
  obtain tcs st3 where tcs: "shuffle_cases (test_cases s) st2 = Some (tcs, st3)" "list_all2 reordered (test_cases s) tcs"
    using shuffle_cases_spec [of "test_cases s" st2] assms by (auto simp: in_order_def)
  have "cast_int32 (int ?n) = int ?n" using n by (simp add: cast_int32_id)
  then have "ShuffleTests s = Some (s\<lparr>test_case_indices := w, test_cases := tcs, random_state := st3\<rparr>)"
    using vw(1,2) [unfolded i(2)] tcs(1) by (simp add: ShuffleTests_def i(1))
  moreover have "w ! j \<le> last_death_test_case s \<longleftrightarrow> int j \<le> last_death_test_case s" if "j < ?n" for j
    using vw(5) that i(2) by auto
  ultimately show ?thesis using vw(3) tcs(2) by blast
qed

lemma UnshuffleTests_reordered:
  assumes "in_order s" "list_all2 reordered (test_cases s) tcs" "length w = length (test_cases s)"
  shows "UnshuffleTests (s\<lparr>test_case_indices := w, test_cases := tcs, random_state := st\<rparr>) = s\<lparr>random_state := st\<rparr>"
proof -
  have l: "length tcs = length (test_cases s)" using assms(2) by (simp add: list_all2_lengthD)
  have "map case_UnshuffleTests tcs = test_cases s"
  proof (rule nth_equalityI)
    fix j assume "j < length (map case_UnshuffleTests tcs)"
    then have "reordered (test_cases s ! j) (tcs ! j)" "indices_ok (test_cases s ! j)" "j < length tcs"
      using assms l by (auto simp: list_all2_nthD in_order_def)
    then show "map case_UnshuffleTests tcs ! j = test_cases s ! j" using reordered_unshuffle(1) by simp
  qed (simp add: l)
  then show ?thesis using assms(1,3) l by (simp add: UnshuffleTests_def in_order_def)
qed

lemma registry_in_order: "registry_inv ts s \<Longrightarrow> length ts < 2 ^ 31 \<Longrightarrow> in_order s"
  using length_cases [of ts s] by (fastforce simp: registry_inv_def in_order_def)

lemma ShuffleTests_spec:
  assumes inv: "registry_inv ts s" and l: "length ts < 2 ^ 31"
  shows "\<exists>s'. ShuffleTests s = Some s' \<and>
     mset (test_case_indices s') = mset (test_case_indices s) \<and>
     list_all2 reordered (test_cases s) (test_cases s') \<and>
     (\<forall>i<length (test_cases s). death_test_case (tc_name (test_cases s ! nat (test_case_indices s' ! i))) \<longleftrightarrow>
         int i \<le> last_death_test_case s) \<and>
     UnshuffleTests s' = s\<lparr>random_state := random_state s'\<rparr>"
proof -
  let ?n = "length (test_cases s)"
  have o: "in_order s" by (rule registry_in_order [OF inv l])
  obtain w tcs st where sh: "ShuffleTests s = Some (s\<lparr>test_case_indices := w, test_cases := tcs, random_state := st\<rparr>)"
    "mset w = mset (map int [0..<?n])" "\<forall>j<?n. w ! j \<le> last_death_test_case s \<longleftrightarrow> int j \<le> last_death_test_case s"
    "list_all2 reordered (test_cases s) tcs"
    using ShuffleTests_order [OF o] by blast
  have lw: "length w = ?n" using mset_eq_length [OF sh(2)] by simp
  have "death_test_case (tc_name (test_cases s ! nat (w ! j))) \<longleftrightarrow> int j \<le> last_death_test_case s" if "j < ?n" for j
  proof -
    have "w ! j \<in> set (map int [0..<?n])" using mset_eq_setD [OF sh(2)] lw that by (metis nth_mem)
    then have "0 \<le> w ! j" "nat (w ! j) < ?n" by auto
    then have "death_test_case (tc_name (test_cases s ! nat (w ! j))) \<longleftrightarrow> int (nat (w ! j)) \<le> last_death_test_case s"
      using inv by (auto simp: registry_inv_def)
    then show ?thesis using sh(3) that \<open>0 \<le> w ! j\<close> by simp
  qed
  moreover have "test_case_indices s = map int [0..<?n]" using o by (simp add: in_order_def)
  ultimately show ?thesis using sh UnshuffleTests_reordered [OF o sh(4) lw] by simp
qed

section \<open>What is selected\<close>

definition runnable :: "gtest_flags \<Rightarrow> string \<times> TestInfo \<Rightarrow> bool" where
  "runnable fl nt \<longleftrightarrow>
     (also_run_disabled_tests fl \<or>
      \<not> (MatchesFilter (fst nt) kDisableTestFilter \<or> MatchesFilter (c_str (ti_name (snd nt))) kDisableTestFilter)) \<and>
     FilterMatchesTest fl (fst nt) (c_str (ti_name (snd nt)))"

text \<open>All tests in registration order, and for each whether it should run.\<close>

definition all_tests :: "UnitTestImpl \<Rightarrow> (string \<times> TestInfo) list" where
  "all_tests s = concat (map (\<lambda>tc. map (Pair (c_str (tc_name tc))) (test_info_list tc)) (test_cases s))"

definition selection :: "UnitTestImpl \<Rightarrow> bool list" where
  "selection s = map (\<lambda>nt. ti_should_run (snd nt)) (all_tests s)"

fun mark :: "gtest_flags \<Rightarrow> (int \<times> int) option \<Rightarrow> nat \<Rightarrow> (string \<times> TestInfo) list \<Rightarrow> bool list" where
  "mark fl shard r [] = []"
| "mark fl shard r (nt # nts) =
     (runnable fl nt \<and> (case shard of None \<Rightarrow> True | Some (n, k) \<Rightarrow> ShouldRunTestOnShard n k (int r))) #
     mark fl shard (r + of_bool (runnable fl nt)) nts"

lemma mark_append:
  "mark fl shard r (xs @ ys) = mark fl shard r xs @ mark fl shard (r + length (filter (runnable fl) xs)) ys"
  by (induction xs arbitrary: r) (simp_all add: add.assoc)

lemma length_mark [simp]: "length (mark fl shard r xs) = length xs"
  by (induction xs arbitrary: r) simp_all

lemma filter_test_spec:
  "filter_test fl shard n t (r, q) =
     (t\<lparr>is_disabled := MatchesFilter n kDisableTestFilter \<or> MatchesFilter (c_str (ti_name t)) kDisableTestFilter,
        matches_filter := FilterMatchesTest fl n (c_str (ti_name t)),
        ti_should_run := hd (mark fl shard r [(n, t)])\<rparr>,
      r + of_bool (runnable fl (n, t)), q + of_bool (hd (mark fl shard r [(n, t)])))"
  by (simp add: filter_test_def Let_def runnable_def)

lemma filter_test_list_spec:
  assumes "filter_test_list fl shard n ts (r, q) = (ts', r', q')"
  shows "map ti_should_run ts' = mark fl shard r (map (Pair n) ts) \<and> map ti_name ts' = map ti_name ts \<and>
     r' = r + length (filter (runnable fl) (map (Pair n) ts)) \<and> q' = q + length (filter id (mark fl shard r (map (Pair n) ts)))"
  using assms
proof (induction ts arbitrary: r q ts')
  case (Cons t ts)
  let ?m = "hd (mark fl shard r [(n, t)])" and ?r = "r + of_bool (runnable fl (n, t))"
  obtain us where us: "filter_test_list fl shard n ts (?r, q + of_bool ?m) = (us, r', q')" "ts' = fst (filter_test fl shard n t (r, q)) # us"
    using Cons(2) unfolding filter_test_list.simps filter_test_spec Let_def by (auto split: prod.splits)
  from Cons(1) [OF us(1)] show ?case unfolding us(2) filter_test_spec by auto
qed simp

lemma filter_case_list_spec:
  assumes "filter_case_list fl shard tcs (r, q) = (tcs', r', q')"
  defines "flat \<equiv> \<lambda>tcs. concat (map (\<lambda>tc. map (Pair (c_str (tc_name tc))) (test_info_list tc)) tcs)"
  shows "map (\<lambda>nt. ti_should_run (snd nt)) (flat tcs') = mark fl shard r (flat tcs) \<and>
     map (\<lambda>nt. (fst nt, ti_name (snd nt))) (flat tcs') = map (\<lambda>nt. (fst nt, ti_name (snd nt))) (flat tcs) \<and>
     r' = r + length (filter (runnable fl) (flat tcs)) \<and> q' = q + length (filter id (mark fl shard r (flat tcs))) \<and>
     (\<forall>tc\<in>set tcs'. tc_should_run tc \<longleftrightarrow> (\<exists>t\<in>set (test_info_list tc). ti_should_run t)) \<and>
     map (\<lambda>tc. (tc_name tc, test_indices tc, length (test_info_list tc))) tcs' =
     map (\<lambda>tc. (tc_name tc, test_indices tc, length (test_info_list tc))) tcs"
  using assms(1)
proof (induction tcs arbitrary: r q tcs')
  case (Cons tc tcs)
  obtain ts r1 q1 where f: "filter_test_list fl shard (c_str (tc_name tc)) (test_info_list tc) (r, q) = (ts, r1, q1)"
    by (metis prod_cases3)
  let ?tc = "set_should_run (\<exists>t\<in>set ts. ti_should_run t) (tc\<lparr>test_info_list := ts\<rparr>)"
  obtain us where us: "filter_case_list fl shard tcs (r1, q1) = (us, r', q')" "tcs' = ?tc # us"
    using Cons(2) f by (auto simp: filter_case_def Let_def split: prod.splits)
  note i = filter_test_list_spec [OF f]
  then have "length ts = length (test_info_list tc)" by (metis length_map)
  moreover have "map (\<lambda>t. (c_str (tc_name tc), ti_name t)) ts = map (\<lambda>t. (c_str (tc_name tc), ti_name t)) (test_info_list tc)"
    using arg_cong [OF i [THEN conjunct2, THEN conjunct1], of "map (Pair (c_str (tc_name tc)))"] by (simp add: comp_def)
  ultimately show ?case using Cons(1) [OF us(1)] i
    by (simp add: us(2) flat_def set_should_run_def mark_append comp_def id_def)
qed (simp add: flat_def)

lemma mark_nth: "i < length xs \<Longrightarrow> mark fl shard r xs ! i \<longleftrightarrow>
    runnable fl (xs ! i) \<and>
    (case shard of None \<Rightarrow> True | Some (n, k) \<Rightarrow> ShouldRunTestOnShard n k (int (r + length (filter (runnable fl) (take i xs)))))"
  by (induction xs arbitrary: r i) (auto simp: nth_Cons' take_Cons' add.assoc split: if_splits option.splits)

text \<open>The variables that a test runner sets for one of its shards.\<close>

definition shard_env :: "nat \<Rightarrow> nat \<Rightarrow> env" where
  "shard_env n k = [kTestTotalShards \<mapsto> show_int (int n), kTestShardIndex \<mapsto> show_int (int k)]"

lemma shard_env_read:
  assumes "k < n" "n < 2 ^ 31"
  shows "Int32FromEnvOrDie (shard_env n k) kTestTotalShards d = Some (int n)"
    "Int32FromEnvOrDie (shard_env n k) kTestShardIndex d = Some (int k)"
    "ShouldShard (shard_env n k) kTestTotalShards kTestShardIndex False = Some (n > 1)"
proof -
  have ne: "kTestTotalShards \<noteq> kTestShardIndex" by (simp add: kTestTotalShards_def kTestShardIndex_def)
  show i: "Int32FromEnvOrDie (shard_env n k) kTestTotalShards d = Some (int n)"
    "Int32FromEnvOrDie (shard_env n k) kTestShardIndex d = Some (int k)" for d
    using assms ne by (simp_all add: Int32FromEnvOrDie_def shard_env_def ParseInt32_show_int)
  show "ShouldShard (shard_env n k) kTestTotalShards kTestShardIndex False = Some (n > 1)"
    using assms by (simp add: ShouldShard_def i)
qed

lemma FilterTests_selection:
  shows "\<exists>s'. FilterTests fl env IGNORE_SHARDING_PROTOCOL s = Some (s', length (filter id (selection s'))) \<and>
      selection s' = map (runnable fl) (all_tests s)"
    "k < n \<Longrightarrow> n < 2 ^ 31 \<Longrightarrow>
      \<exists>s'. FilterTests fl (shard_env n k) HONOR_SHARDING_PROTOCOL s = Some (s', length (filter id (selection s'))) \<and>
        selection s' = mark fl (Some (int n, int k)) 0 (all_tests s)"
proof -
  have f: "\<exists>tcs r. filter_case_list fl shard (test_cases s) (0, 0) = (tcs, r, length (filter id (selection (s\<lparr>test_cases := tcs\<rparr>)))) \<and>
      selection (s\<lparr>test_cases := tcs\<rparr>) = mark fl shard 0 (all_tests s)" for shard
  proof -
    obtain tcs r q where e: "filter_case_list fl shard (test_cases s) (0, 0) = (tcs, r, q)" by (metis prod_cases3)
    have "selection (s\<lparr>test_cases := tcs\<rparr>) = mark fl shard 0 (all_tests s)" "q = length (filter id (mark fl shard 0 (all_tests s)))"
      using filter_case_list_spec [OF e] by (simp_all add: selection_def all_tests_def)
    then show ?thesis using e by simp
  qed
  have "mark fl None r xs = map (runnable fl) xs" for r xs by (induction xs arbitrary: r) simp_all
  then show "\<exists>s'. FilterTests fl env IGNORE_SHARDING_PROTOCOL s = Some (s', length (filter id (selection s'))) \<and>
      selection s' = map (runnable fl) (all_tests s)"
    using f [of None] by (auto simp: FilterTests_def Let_def)
  show "\<exists>s'. FilterTests fl (shard_env n k) HONOR_SHARDING_PROTOCOL s = Some (s', length (filter id (selection s'))) \<and>
        selection s' = mark fl (Some (int n, int k)) 0 (all_tests s)" if "k < n" "n < 2 ^ 31"
    using f [of "Some (int n, int k)"] shard_env_read(1,2) [OF that] that by (auto simp: FilterTests_def Let_def)
qed

lemma shard_unique:
  assumes "0 < n"
  shows "\<exists>!k. k < n \<and> ShouldRunTestOnShard (int n) (int k) (int r)"
proof -
  have "c_mod (int r) (int n) = int (r mod n)" by (cases "r = 0") (simp_all add: c_mod_def zmod_int)
  then have "ShouldRunTestOnShard (int n) (int k) (int r) \<longleftrightarrow> k = r mod n" for k
    by (auto simp: ShouldRunTestOnShard_def)
  then show ?thesis using assms by auto
qed

section \<open>Properties\<close>

text \<open>
  C38: However tests are registered, there is one test case per name; each holds the tests
  of its name in the order of their registration, and the test cases whose name marks them
  as death tests come first.
\<close>

theorem registration_correct:
  assumes "registered ts s"
  shows "distinct (map tc_name (test_cases s)) \<and> tc_name ` set (test_cases s) = case_of ` set ts \<and>
     (\<forall>tc\<in>set (test_cases s). test_info_list tc = filter (\<lambda>t. case_of t = tc_name tc) ts) \<and>
     (\<forall>i j. i < j \<and> j < length (test_cases s) \<and> death_test_case (tc_name (test_cases s ! j)) \<longrightarrow>
        death_test_case (tc_name (test_cases s ! i)))"
  using registered_inv [OF assms] by (auto simp: registry_inv_def)

theorem registration_correct_witness:
  "\<exists>s. AddTestInfo ''dir'' 0 0 (TestInfo_new ''A'' ''B'' None None 0 0) UnitTestImpl_new = Some s \<and>
     tc_name ` set (test_cases s) = {''A''}"
proof -
  let ?t = "TestInfo_new ''A'' ''B'' None None 0 0"
  obtain s where s: "AddTestInfo ''dir'' 0 0 ?t UnitTestImpl_new = Some s"
    using AddTestInfo_total [of "''dir''"] by blast
  have "registered ([] @ [?t]) s" by (rule registered.add [OF registered.start s])
  from registration_correct [OF this] show ?thesis using s by (auto simp: TestInfo_new_def c_str_def)
qed




text \<open>
  C40: When a runner starts the program once per shard, with the number of shards and the
  index in the environment, every test that the filter and the disabled mark let run is
  selected on exactly one shard, and no other test on any; the number returned is the number
  of selected tests.
\<close>

theorem shards_partition_tests:
  assumes "0 < n" "n < 2 ^ 31" "i < length (all_tests s)"
  shows "(\<forall>k<n. \<exists>s'. FilterTests fl (shard_env n k) HONOR_SHARDING_PROTOCOL s =
            Some (s', length (filter id (selection s'))) \<and> length (selection s') = length (all_tests s)) \<and>
     (if runnable fl (all_tests s ! i)
      then \<exists>!k. k < n \<and> (\<exists>s' c. FilterTests fl (shard_env n k) HONOR_SHARDING_PROTOCOL s = Some (s', c) \<and> selection s' ! i)
      else \<forall>k<n. \<forall>s' c. FilterTests fl (shard_env n k) HONOR_SHARDING_PROTOCOL s = Some (s', c) \<longrightarrow> \<not> selection s' ! i)"
proof -
  let ?xs = "all_tests s" and ?F = "\<lambda>k. FilterTests fl (shard_env n k) HONOR_SHARDING_PROTOCOL s"
  let ?r = "length (filter (runnable fl) (take i ?xs))"
  have f: "\<exists>s'. ?F k = Some (s', length (filter id (selection s'))) \<and> selection s' = mark fl (Some (int n, int k)) 0 ?xs"
    if "k < n" for k using FilterTests_selection(2) [OF that assms(2)] .
  have sel: "selection s' ! i \<longleftrightarrow> runnable fl (?xs ! i) \<and> ShouldRunTestOnShard (int n) (int k) (int ?r)"
    if "k < n" "?F k = Some (s', c)" for k s' c
    using f [OF that(1)] that(2) mark_nth [OF assms(3), of fl "Some (int n, int k)" 0] by auto
  have ex: "k < n \<and> (\<exists>s' c. ?F k = Some (s', c) \<and> selection s' ! i) \<longleftrightarrow>
      k < n \<and> runnable fl (?xs ! i) \<and> ShouldRunTestOnShard (int n) (int k) (int ?r)" for k
    using sel [of k] f [of k] by blast
  have "\<forall>k<n. \<exists>s'. ?F k = Some (s', length (filter id (selection s'))) \<and> length (selection s') = length ?xs"
    using f by fastforce
  then show ?thesis unfolding ex using shard_unique [OF assms(1), of ?r] sel by auto
qed

theorem shards_partition_tests_witness:
  "\<exists>s. AddTestInfo ''dir'' 0 0 (TestInfo_new ''A'' ''B'' None None 0 0) UnitTestImpl_new = Some s \<and>
     (\<exists>!k. k < 3 \<and> (\<exists>s' c. FilterTests (gtest_flags_init Map.empty) (shard_env 3 k) HONOR_SHARDING_PROTOCOL s = Some (s', c) \<and>
        selection s' ! 0))"
proof -
  let ?t = "TestInfo_new ''A'' ''B'' None None 0 0"
  obtain s where s: "AddTestInfo ''dir'' 0 0 ?t UnitTestImpl_new = Some s"
    using AddTestInfo_total [of "''dir''"] by blast
  have "registered ([] @ [?t]) s" by (rule registered.add [OF registered.start s])
  then have inv: "registry_inv [?t] s" using registered_inv by force
  have n: "case_of ?t = ''A''" by (simp add: TestInfo_new_def c_str_def)
  then have "tc_name ` set (test_cases s) = {''A''}" "length (test_cases s) \<le> 1"
    using inv length_cases(1) [OF inv] by (simp_all add: registry_inv_def)
  then obtain tc where tc: "test_cases s = [tc]" "tc_name tc = ''A''" by (cases "test_cases s") auto
  then have "test_info_list tc = [?t]" using inv n by (simp add: registry_inv_def)
  then have a: "all_tests s = [(''A'', ?t)]" using tc by (simp add: all_tests_def c_str_def)
  have "runnable (gtest_flags_init Map.empty) (''A'', ?t)" by code_simp
  then have "runnable (gtest_flags_init Map.empty) (all_tests s ! 0)" by (simp add: a)
  then show ?thesis
    using shards_partition_tests [of 3 0 s "gtest_flags_init Map.empty"] s a by auto
qed


text \<open>
  The reader's method gives the test case at the place itself and not at the shuffled index:
  the first test case of a shuffled run is not the one that runs first.
\<close>

lemma reader_ignores_shuffle:
  assumes "test_case_indices s = [1, 0]" "test_cases s = [a, b]"
  shows "GetTestCase s 0 = Some a \<and> GetMutableTestCase s 0 = Some 1 \<and> test_cases s ! 1 = b"
  using assms by (simp add: GetTestCase_def GetMutableTestCase_def GetElementOr_def)

end
