(* ===== verification/Spec2Isabelle.thy ===== *)
theory Spec2Isabelle
  imports Sopmq_Prelude Uint128 Uint128_Text Murmur Clocks Message_Queue Queue_Manager
    Endpoint Failure_Detector Settings Node_Ring Net_Result Messages Dispatcher Wire Connection
    Quorum Publish Account Server_Auth Client_Session Client_Cluster Node_Main
    Gtest_Text Gtest_Regex Gtest_Flags Gtest_Filter Gtest_Result Gtest_Registry
begin

text \<open>
  Verification of SOPMQ, a message queue whose queues are spread over the nodes of a ring.

  \<^bold>\<open>The program.\<close>  A queue belongs to the position on the ring that the MurmurHash3 of its
  name gives; the node whose range contains it and the next two hold its replicas.  A client opens
  a session with some node, logs in with a challenge and a response, and publishes
  messages.  The node finds a quorum of live replicas, passes the message on to them,
  collects their vector clocks and stamps the message with the maximum.  Replicas hold
  unstamped messages and the stamped ones in clock order until they are claimed or expire.
  Each node watches its peers with an accrual failure detector.  User accounts are kept in
  a Cassandra cluster, which the node tool initialises.

  \<^bold>\<open>Numbers and hashes\<close> (\<open>thirdparty/src\<close>, \<open>shared/src/util.cpp\<close>).  \<open>Uint128\<close>: the class
  \<open>uint128\<close> over two 64-bit words, refined to 128-bit words operator by operator, and
  division, which ends with the Euclidean result.  \<open>Uint128_Text\<close>: printing and parsing,
  with the decimal round trip.  \<open>Murmur\<close>: the three hash functions; the block loop with the
  fall-through switch consumes the key block by block, and the ring hash is injective on
  short keys of one length.  \<open>Settings\<close>: the settings singletons and the byte helpers.

  \<^bold>\<open>Queues\<close> (\<open>node/src\<close>: \<open>node_clock\<close>, \<open>vector_clock\<close>, \<open>queued_message\<close>, \<open>message_queue\<close>,
  \<open>queue_manager\<close>).  \<open>Clocks\<close>: comparison extends the causal order, \<open>max\<close> is the least upper
  bound, the network form is read back, and comparison is cyclic on concurrent clocks.
  \<open>Message_Queue\<close>: the three collections of a queue as a transition system with its
  invariant; stamping, expiry and claiming; clock order under causal stamps.
  \<open>Queue_Manager\<close>: the table of queues over the contract \<open>queue_table\<close>.

  \<^bold>\<open>Membership\<close> (\<open>endpoint\<close>, \<open>failure_detector\<close>, \<open>node\<close>, \<open>ring\<close>).  \<open>Endpoint\<close>: the URI
  parser accepts exactly its grammar.  \<open>Failure_Detector\<close>: the phi estimate in correctly
  rounded single precision; suspicion only grows and silence is detected.  \<open>Node_Ring\<close>:
  insertion keeps both indexes consistent, lookups find the owner of a key and its
  successors, a quorum consists of the live replicas.

  \<^bold>\<open>Network\<close> (\<open>shared/src\<close>: \<open>network_operation_result\<close>, \<open>message_dispatcher\<close>, \<open>netutil\<close>,
  \<open>messageutil\<close>, \<open>connection_base\<close>, and \<open>messages/*.proto\<close>).  \<open>Net_Result\<close>, \<open>Messages\<close>: the
  values.  \<open>Dispatcher\<close>: the handler tables refine a partial function from message type and
  reply identifier.  \<open>Wire\<close>: frames; what is written is read back, and every read makes one
  status callback and ends in one of three ways.  \<open>Connection\<close>: identifiers and connecting.

  \<^bold>\<open>Operations\<close> (\<open>quorum_logic\<close>, \<open>operation_result\<close>, \<open>local_node_operations\<close>,
  \<open>csauthenticated\<close>, \<open>csunauthenticated\<close>, \<open>connection_in\<close>, \<open>server\<close>, \<open>user_account\<close>,
  \<open>cassandra_storage\<close>, the two \<open>main\<close> functions).  \<open>Quorum\<close>: which nodes are contacted and
  when an operation has succeeded or failed.  \<open>Publish\<close>: a posted message from the quorum
  search to the stamp, on every path.  \<open>Account\<close>: storage of users and the check of an
  answer.  \<open>Server_Auth\<close>: the server side of a connection as a transition system; no history
  authenticates it without accepted credentials.  \<open>Node_Main\<close>: options, accept loop, tool.

  \<^bold>\<open>Client\<close> (\<open>client/cpp/src\<close>).  \<open>Client_Session\<close>: session and its two states.
  \<open>Client_Cluster\<close>: the known endpoints, dead ones and their backoff, connecting.

  \<^bold>\<open>Bundled test framework\<close> (\<open>gtest-1.7.0\<close>).  \<open>Gtest_Text\<close>: string helpers, UTF-8 and the escaping
  of the XML report, both read back.  \<open>Gtest_Regex\<close>: the simple regular expressions; the syntax
  check accepts their grammar and the matcher decides their language.  \<open>Gtest_Flags\<close>: flags,
  environment variables and the pass over the command line.  \<open>Gtest_Filter\<close>: glob filters,
  sharding variables, random numbers and the shuffle.  \<open>Gtest_Result\<close>: results of assertions,
  tests and test cases.  \<open>Gtest_Registry\<close>: registration, selection and order of the tests;
  shards partition them, and shuffling is undone.

  This theory holds the properties that span components: a login of a client at a server
  with an account from the database, and a message on its way from a client to a queue.

  \<^bold>\<open>Conventions.\<close>  A class is a record of its members, a method a function on it; a thrown
  exception is \<open>Inl\<close> (with \<open>andthen\<close> for sequencing), in \<open>Quorum\<close> and \<open>Publish\<close> the second
  component of a result.  Objects behind shared pointers are named by numbers into a heap
  function.  Times are arguments, in nanoseconds; members that a constructor leaves
  uninitialised, random draws and shuffles are arguments as well.  An asynchronous call
  records what it starts, and its completion is a separate step.  The socket library, the
  message serialiser, the digest, the hex encoder, \<open>lexical_cast\<close>, the option parser and the
  database driver are parameters; what a theorem needs of them is a named hypothesis
  (\<open>reads_stream\<close>, \<open>writes_stream\<close>, \<open>stores_users\<close>), and its witness has an instance.
  Undefined behaviour is an explicit value where the code can reach it.

  \<^bold>\<open>Bounds.\<close>  The recursion between the functions a quorum object stores is cut at depth
  \<open>RF\<close>, the replication factor three; \<open>local_publish_never_succeeds\<close> includes that the cut
  is never reached, because every level uses up a node.  All other recursion is total.

  \<^bold>\<open>Not modelled.\<close>  Logging; destructors and memory pools; mutexes (the queue manager takes a
  lock for the whole of each lookup); the expiration heap beyond its handles, since nothing
  reads it; the constructors of \<open>uint128\<close> from floating point numbers, which nothing calls;
  \<open>message_queue::next_expiry\<close>, which has no return statement; the gossiper and the outbound
  node connection, which are empty classes; the unit tests; of the test framework the parts
  that start processes, read and write files or only print (death tests, reports, streams),
  and its fused copy and generated headers, which repeat the modelled sources.
\<close>

section \<open>A login between client and server\<close>

text \<open>
  The exchange of a login, with the transport delivering every message: the request for a
  challenge, the challenge, the answer, and the acknowledgement after the posted tasks of
  the server have run.
\<close>

definition run_posted :: "connection_in \<Rightarrow> connection_in" where
  "run_posted s = fold run_task (ci_posted s) (s\<lparr>ci_posted := []\<rparr>)"

definition login ::
  "(u8 list \<Rightarrow> u8 list) \<Rightarrow> (u8 list \<Rightarrow> string) \<Rightarrow> settings \<Rightarrow> (string \<Rightarrow> string \<Rightarrow> string \<Rightarrow> bool list) \<Rightarrow> (nat \<Rightarrow> u8)
     \<Rightarrow> GetChallengeType \<Rightarrow> string \<Rightarrow> string \<Rightarrow> client_session \<times> connection_in" where
  "login sha hex cfg authorize rnd uninit userName password =
     (let c = authenticate userName password session_new;
          s = connection_in_start (connection_in_new uninit);
          s = server_receive sha hex cfg authorize rnd Unauthenticated (snd (last (cs_sent c))) s;
          c = client_receive sha hex Unauthenticated_State (snd (last (ci_sent s))) c;
          s = server_receive sha hex cfg authorize rnd Unauthenticated (snd (last (cs_sent c))) s;
          s = run_posted s;
          c = client_receive sha hex Unauthenticated_State (snd (last (ci_sent s))) c
      in (c, s))"

lemmas login_defs = server_receive_def dispatcher_of_def client_receive_def client_dispatcher_of_def dispatch_abs invoke_def
  dispatcher_abs_set_handler dispatcher_abs_set_reply_handler message_identity_def make_GetChallengeMessage_def
  make_AnswerChallengeMessage_def make_ChallengeResponseMessage_def make_AuthAckMessage_def build_id_def session_defs
  client_defs connection_in_new_def session_new_def handle_get_challenge_def generate_challenge_response_def
  CHALLENGE_SIZE_def handle_answer_challenge_def authenticate_def unauthenticated_state_entry_def on_challenge_response_def
  on_auth_ack_def

lemma login_outcome:
  assumes "unitTestUsername cfg = ''''"
    "authorize (sha256_hex_string sha hex userName) (random_bytes rnd 1024)
       (sha256_hex_string sha hex (sha256_hex_string sha hex password @ random_bytes rnd 1024)) = [a]"
  shows "\<exists>c s. login sha hex cfg authorize rnd uninit userName password = (c, s) \<and> cs_auth_results c = [a] \<and>
     (cs_state c = Some Authenticated_State \<longleftrightarrow> a) \<and> (ci_state s = Authenticated \<longleftrightarrow> a)"
  using assms by (cases a) (simp_all add: login_def login_defs run_posted_def)

lemma posted_message_dispatched:
  assumes "dispatcher_abs (au_dispatcher s) (MT_PUBLISH, 0) = Some (Some handle_post_message_handler)"
    "in_reply_to (pm_identity m) = 0"
  shows "ci_posts (server_receive sha hex cfg authorize rnd Authenticated (Publish m) s) = ci_posts s @ [m]"
  using assms by (simp add: login_defs)

lemma client_publish_message:
  "\<exists>m. cs_sent (authenticated_publish_message u q st t d c) = cs_sent c @ [(MT_PUBLISH, Publish m)] \<and>
     pm_message_id m = uuid_to_bytes u \<and> pm_queue_id m = q \<and> pm_ttl m = t \<and> pm_content m = d \<and> in_reply_to (pm_identity m) = 0"
  by (simp add: authenticated_publish_message_def client_defs make_PublishMessage_def build_id_def)

lemma enqueue_finds:
  assumes "queue_of mgr k = None"
  shows "\<exists>q. queue_of (enqueue_message now k i d t mgr) k = Some q \<and>
     map_of (unstamped_messages q) i = Some (queued_message_new now i d) \<and> ttl q = t \<and> total_count q = 1"
  using assms
  by (simp add: enqueue_message_def Let_def queue_of_update queue_of_get_queue enqueue_def message_queue_new_def
      umap_insert_def total_count_def)

text \<open>What the program has set up when its event loop starts.\<close>

lemma started_node:
  assumes "node_main parse read_config now0 uclock p h s0 = Inr (Inr srv, h', cfg)"
  shows "ring_by_range (srv_ring srv) = [(range_setting cfg, p)]" "is_alive cfg now (h' p)"
    "operations_handler (h' p) = Some local_node_operations"
  using assms
  by (auto simp: node_main_def server_new_def Let_def add_node_def check_no_conflict_def ring_new_def server_start_def
      accept_new_def get_self_def node_new_def init_local_operations_def is_alive_def is_self_def split: prod.splits bool.splits)

section \<open>Properties\<close>

text \<open>
  C3: an account created with a non-zero level can be used to log in over a connection:
  the application is told exactly once, and it, the client session and the server agree on
  the outcome, which is positive exactly when the password that is tried has the digest of
  the password the account was created with.
\<close>

theorem login_end_to_end:
  assumes "stores_users drv" "\<forall>bs. CHR 0x00 \<notin> set (hex bs)" "CHR 0x00 \<notin> set userName" "level \<noteq> 0"
    "unitTestUsername cfg = []"
    "a = (sha256_hex_string sha hex (sha256_hex_string sha hex attempt @ random_bytes rnd 1024) =
          sha256_hex_string sha hex (sha256_hex_string sha hex password @ random_bytes rnd 1024))"
  shows "\<exists>acct db'. account_create sha hex drv userName password level db = (Inr acct, db') \<and>
     (\<exists>c s. login sha hex cfg (\<lambda>n ch r. fst (is_authorized sha hex drv ustr uval n ch r db')) rnd uninit userName attempt = (c, s) \<and>
        cs_auth_results c = [a] \<and> (cs_state c = Some Authenticated_State \<longleftrightarrow> a) \<and> (ci_state s = Authenticated \<longleftrightarrow> a))"
proof -
  let ?resp = "sha256_hex_string sha hex (sha256_hex_string sha hex attempt @ random_bytes rnd 1024)"
  obtain acct db' where db: "account_create sha hex drv userName password level db = (Inr acct, db')"
    "is_authorized sha hex drv ustr uval (sha256_hex_string sha hex userName) (random_bytes rnd 1024) ?resp db' = ([a], db')"
    using create_login [OF assms(1-4), where sha = sha and password = password and db = db and ustr = ustr and uval = uval
        and challenge = "random_bytes rnd 1024" and response = ?resp] unfolding assms(6) by blast
  have "\<exists>c s. login sha hex cfg (\<lambda>n ch r. fst (is_authorized sha hex drv ustr uval n ch r db')) rnd uninit userName attempt = (c, s) \<and>
      cs_auth_results c = [a] \<and> (cs_state c = Some Authenticated_State \<longleftrightarrow> a) \<and> (ci_state s = Authenticated \<longleftrightarrow> a)"
    by (rule login_outcome) (use assms(5) db(2) in simp_all)
  then show ?thesis using db(1) by blast
qed

theorem login_end_to_end_witness:
  "\<exists>acct db'. account_create id (\<lambda>bs. concat (replicate (length bs) ''ab'')) last_row_driver ''bob'' ''pw'' 1 [] = (Inr acct, db') \<and>
     (\<exists>c s. login id (\<lambda>bs. concat (replicate (length bs) ''ab'')) (settings_new 2 8481)
        (\<lambda>n ch r. fst (is_authorized id (\<lambda>bs. concat (replicate (length bs) ''ab'')) last_row_driver [] 0 n ch r db'))
        (\<lambda>_. 7) CLIENT ''bob'' ''pw'' = (c, s) \<and>
        cs_auth_results c = [True] \<and> (cs_state c = Some Authenticated_State \<longleftrightarrow> True) \<and> (ci_state s = Authenticated \<longleftrightarrow> True))"
  by (rule login_end_to_end [OF last_row_stores]) (simp_all add: settings_new_def)


lemma sample_start:
  "\<exists>srv h' cfg. node_main (Inr sample_options) (\<lambda>_. None) 0 \<lparr>node_id = 0, generation = 0, clock = 0\<rparr> 2 sample_heap
     (settings_new 2 3) = Inr (Inr srv, h', cfg)"
  using node_main_joins_ring [of "Inr sample_options" "\<lambda>_. None" "settings_new 2 3" 0
      "\<lparr>node_id = 0, generation = 0, clock = 0\<rparr>" 2 sample_heap]
  by (auto simp: sample_options_accepted)


end
